theory Spec2Isabelle
  imports Main
begin

section \<open>Strings of the host language\<close>

text \<open>
  Strings are lists of characters. The helpers below are the few string methods of the
  host language the manager uses, with their behaviour on every input written out
  (\<^verbatim>\<open>lastIndexOf\<close> answers -1 when the character is absent, \<^verbatim>\<open>substring\<close> clamps
  its bounds and swaps them when they are out of order, \<^verbatim>\<open>split\<close> always yields at
  least one piece, \<^verbatim>\<open>replace\<close> with a string pattern rewrites the first occurrence only).
\<close>

fun split_where :: "(char \<Rightarrow> bool) \<Rightarrow> string \<Rightarrow> string list" where
  "split_where P [] = [[]]"
| "split_where P (x # xs) =
     (if P x then [] # split_where P xs
      else (case split_where P xs of [] \<Rightarrow> [[x]] | y # ys \<Rightarrow> (x # y) # ys))"

definition split_on :: "char \<Rightarrow> string \<Rightarrow> string list" where
  "split_on c s = split_where (\<lambda>x. x = c) s"

fun lastIndexOf :: "string \<Rightarrow> char \<Rightarrow> int" where
  "lastIndexOf [] c = -1"
| "lastIndexOf (x # xs) c =
     (let r = lastIndexOf xs c in
      if r \<ge> 0 then r + 1 else if x = c then 0 else -1)"

definition substring :: "string \<Rightarrow> int \<Rightarrow> int \<Rightarrow> string" where
  "substring s a b =
     (let n = int (length s);
          a' = max 0 (min a n);
          b' = max 0 (min b n);
          lo = min a' b';
          hi = max a' b'
      in take (nat (hi - lo)) (drop (nat lo) s))"

definition substring_from :: "string \<Rightarrow> int \<Rightarrow> string" where
  "substring_from s a = substring s a (int (length s))"

definition startsWith :: "string \<Rightarrow> string \<Rightarrow> bool" where
  "startsWith s p = (take (length p) s = p)"

fun replace_first :: "string \<Rightarrow> string \<Rightarrow> string \<Rightarrow> string" where
  "replace_first [] pat rep = (if pat = [] then rep else [])"
| "replace_first (x # xs) pat rep =
     (if startsWith (x # xs) pat then rep @ drop (length pat) (x # xs)
      else x # replace_first xs pat rep)"

section \<open>Magic variables\<close>

text \<open>
  A context is an object, given by its own properties: a name has no property, a property
  whose value is \<^verbatim>\<open>undefined\<close>, or a property whose value is a string.
\<close>

type_synonym magic_context = "string \<Rightarrow> string option option"

text \<open>
  A context is made as an object literal, so it inherits the members of
  \<^verbatim>\<open>Object.prototype\<close>. Each member is listed with the string its value converts to
  when \<^verbatim>\<open>replace\<close> takes it as the replacement: the methods print as native functions (in
  the way of V8, the engine of the host application), \<^verbatim>\<open>constructor\<close> is the function
  \<^verbatim>\<open>Object\<close>, and \<^verbatim>\<open>__proto__\<close> reads as the prototype object itself.
\<close>

definition native_function :: "string \<Rightarrow> string" where
  "native_function name = ''function '' @ name @ ''() { [native code] }''"

definition Object_prototype :: "string \<Rightarrow> string option" where
  "Object_prototype =
     map_of
       [(''constructor'', native_function ''Object''),
        (''__defineGetter__'', native_function ''__defineGetter__''),
        (''__defineSetter__'', native_function ''__defineSetter__''),
        (''hasOwnProperty'', native_function ''hasOwnProperty''),
        (''__lookupGetter__'', native_function ''__lookupGetter__''),
        (''__lookupSetter__'', native_function ''__lookupSetter__''),
        (''isPrototypeOf'', native_function ''isPrototypeOf''),
        (''propertyIsEnumerable'', native_function ''propertyIsEnumerable''),
        (''toString'', native_function ''toString''),
        (''valueOf'', native_function ''valueOf''),
        (''__proto__'', ''[object Object]''),
        (''toLocaleString'', native_function ''toLocaleString'')]"

text \<open>
  \<^verbatim>\<open>variable in context\<close> looks at the own properties and then along the prototype chain;
  \<^verbatim>\<open>context[variable]\<close> reads the own property when there is one and the inherited member
  otherwise (\<^const>\<open>None\<close> is \<^verbatim>\<open>undefined\<close>).
\<close>

definition has_property :: "magic_context \<Rightarrow> string \<Rightarrow> bool" where
  "has_property context variable =
     (case context variable of
        Some v \<Rightarrow> True
      | None \<Rightarrow> (case Object_prototype variable of Some v \<Rightarrow> True | None \<Rightarrow> False))"

definition get_property :: "magic_context \<Rightarrow> string \<Rightarrow> string option" where
  "get_property context variable =
     (case context variable of
        Some v \<Rightarrow> v
      | None \<Rightarrow> Object_prototype variable)"

definition is_word_char :: "char \<Rightarrow> bool" where
  "is_word_char c =
     (let n = of_char c :: nat in
      (48 \<le> n \<and> n \<le> 57) \<or> (65 \<le> n \<and> n \<le> 90) \<or> (97 \<le> n \<and> n \<le> 122) \<or> n = 95)"

text \<open>
  One attempt of the pattern \<^verbatim>\<open>/\{\{(\w+)\}\}/\<close> at the head of a string: the variable
  name and the text after the match.
\<close>

definition match_placeholder :: "string \<Rightarrow> (string \<times> string) option" where
  "match_placeholder s =
     (if startsWith s ''{{'' then
        (let name = takeWhile is_word_char (drop 2 s);
             rest = dropWhile is_word_char (drop 2 s)
         in if name \<noteq> [] \<and> startsWith rest ''}}'' then Some (name, drop 2 rest) else None)
      else None)"

text \<open>The replacement callback of \<^verbatim>\<open>process\<close>.\<close>

definition replace_variable :: "magic_context \<Rightarrow> string \<Rightarrow> string" where
  "replace_variable context variable =
     (if has_property context variable then
        (case get_property context variable of
           Some v \<Rightarrow> v
         | None \<Rightarrow> ''{{'' @ variable @ ''}}'')
      else ''{{'' @ variable @ ''}}'')"

lemma match_placeholder_shorter:
  "match_placeholder s = Some (name, rest) \<Longrightarrow> length rest < length s"
proof -
  assume a: "match_placeholder s = Some (name, rest)"
  then have r: "rest = drop 2 (dropWhile is_word_char (drop 2 s))" and s2: "startsWith s ''{{''"
    by (auto simp: match_placeholder_def Let_def split: if_splits)
  from s2 have "length s \<ge> 2"
    by (cases s; cases "tl s") (auto simp: startsWith_def)
  moreover have "length (dropWhile is_word_char (drop 2 s)) \<le> length (drop 2 s)"
    by (rule length_dropWhile_le)
  ultimately show ?thesis using r by simp
qed

text \<open>
  The global replace: the leftmost match is rewritten and the scan resumes after it;
  where the pattern does not match, one character is copied.
\<close>

function replace_placeholders :: "magic_context \<Rightarrow> string \<Rightarrow> string" where
  "replace_placeholders context [] = []"
| "replace_placeholders context (c # cs) =
     (case match_placeholder (c # cs) of
        Some (name, rest) \<Rightarrow> replace_variable context name @ replace_placeholders context rest
      | None \<Rightarrow> c # replace_placeholders context cs)"
  by pat_completeness auto
termination
  by (relation "measure (\<lambda>(context, s). length s)") (auto dest: match_placeholder_shorter)

definition process :: "string \<Rightarrow> magic_context \<Rightarrow> string" where
  "process template context =
     (if template = [] then [] else replace_placeholders context template)"

text \<open>
  A template has a placeholder when it contains \<^verbatim>\<open>{{name}}\<close> for a non-empty name of
  word characters.
\<close>

definition has_placeholder :: "string \<Rightarrow> bool" where
  "has_placeholder t =
     (\<exists>pre name post. t = pre @ ''{{'' @ name @ ''}}'' @ post \<and> name \<noteq> [] \<and> list_all is_word_char name)"

section \<open>Paths\<close>

text \<open>
  The manager imports \<^verbatim>\<open>basename\<close>, \<^verbatim>\<open>dirname\<close> and \<^verbatim>\<open>join\<close> from the runtime's POSIX
  path module and \<^verbatim>\<open>normalizePath\<close> from the host application. They are not code of the
  plugin; the definitions below follow their documented behaviour on strings of
  one-byte characters (on which the host's replacement of non-breaking spaces and its
  Unicode normalisation change nothing).
\<close>

definition slash :: char where
  "slash = CHR ''/''"

text \<open>\<^verbatim>\<open>basename(path)\<close>: the last component, trailing separators ignored.\<close>

definition basename :: "string \<Rightarrow> string" where
  "basename path =
     rev (takeWhile (\<lambda>c. c \<noteq> slash) (dropWhile (\<lambda>c. c = slash) (rev path)))"

text \<open>
  \<^verbatim>\<open>basename(path, ext)\<close>: the extension is cut off when the last component ends with
  it and is not the extension alone; a path equal to the extension gives the empty string.
\<close>

definition basename_ext :: "string \<Rightarrow> string \<Rightarrow> string" where
  "basename_ext path ext =
     (let name = basename path in
      if ext = [] \<or> length path < length ext then name
      else if ext = path then []
      else if length ext < length name \<and> drop (length name - length ext) name = ext
        then take (length name - length ext) name
      else name)"

text \<open>
  \<^verbatim>\<open>dirname(path)\<close>: everything before the separator that precedes the last component;
  \<^verbatim>\<open>.\<close> when there is none and \<^verbatim>\<open>/\<close> when the only one is the leading separator.
\<close>

definition dirname :: "string \<Rightarrow> string" where
  "dirname path =
     (case path of
        [] \<Rightarrow> ''.''
      | c # cs \<Rightarrow>
          (case dropWhile (\<lambda>x. x \<noteq> slash) (dropWhile (\<lambda>x. x = slash) (rev cs)) of
             [] \<Rightarrow> if c = slash then ''/'' else ''.''
           | _ # r \<Rightarrow> if c = slash \<and> r = [] then ''//'' else c # rev r))"

fun join_with :: "string \<Rightarrow> string list \<Rightarrow> string" where
  "join_with sep [] = []"
| "join_with sep [x] = x"
| "join_with sep (x # y # ys) = x @ sep @ join_with sep (y # ys)"

text \<open>
  The segment walk of \<^verbatim>\<open>normalize\<close>: empty segments and \<^verbatim>\<open>.\<close> are skipped, \<^verbatim>\<open>..\<close>
  removes the segment before it, or is kept when there is none to remove and the path
  is relative. The accumulator holds the segments kept so far, last one first.
\<close>

fun normalizeString :: "bool \<Rightarrow> string list \<Rightarrow> string list \<Rightarrow> string list" where
  "normalizeString allowAboveRoot res [] = rev res"
| "normalizeString allowAboveRoot res (s # ss) =
     (if s = [] \<or> s = ''.'' then normalizeString allowAboveRoot res ss
      else if s = ''..'' then
        (case res of
           [] \<Rightarrow> normalizeString allowAboveRoot (if allowAboveRoot then [''..''] else []) ss
         | t # ts \<Rightarrow>
             if t = ''..''
             then normalizeString allowAboveRoot (if allowAboveRoot then ''..'' # res else res) ss
             else normalizeString allowAboveRoot ts ss)
      else normalizeString allowAboveRoot (s # res) ss)"

definition normalize :: "string \<Rightarrow> string" where
  "normalize path =
     (if path = [] then ''.''
      else
        (let isAbsolute = (hd path = slash);
             trailingSeparator = (last path = slash);
             p = join_with ''/'' (normalizeString (\<not> isAbsolute) [] (split_on slash path))
         in if p = [] then (if isAbsolute then ''/'' else if trailingSeparator then ''./'' else ''.'')
            else (if isAbsolute then ''/'' else []) @ p @ (if trailingSeparator then ''/'' else [])))"

text \<open>\<^verbatim>\<open>join(a, b)\<close>: the non-empty arguments, separated by \<^verbatim>\<open>/\<close> and normalised.\<close>

definition join :: "string \<Rightarrow> string \<Rightarrow> string" where
  "join a b =
     (case filter (\<lambda>x. x \<noteq> []) [a, b] of
        [] \<Rightarrow> ''.''
      | parts \<Rightarrow> normalize (join_with ''/'' parts))"

text \<open>
  \<^verbatim>\<open>normalizePath(path)\<close>: backslashes become \<^verbatim>\<open>/\<close>, runs of separators collapse, leading
  and trailing separators go, and the empty result is \<^verbatim>\<open>/\<close>.
\<close>

definition normalizePath :: "string \<Rightarrow> string" where
  "normalizePath path =
     (let p = join_with ''/''
                (filter (\<lambda>x. x \<noteq> []) (split_where (\<lambda>c. c = slash \<or> c = CHR 0x5C) path))
      in if p = [] then ''/'' else p)"

section \<open>Image records, settings and the host\<close>

record IImageInfo =
  localPath :: string
  remotePath :: string
  isUploaded :: bool
  width :: "int option"
  height :: "int option"
  align :: "string option"
  originalName :: "string option"
  size_bytes :: "int option"
  createTime :: "int option"
  modifyTime :: "int option"

text \<open>\<^verbatim>\<open>createImageInfo(localPath, remotePath = "", isUploaded = false)\<close>; both time stamps
  are the clock's reading.\<close>

definition createImageInfo :: "int \<Rightarrow> string \<Rightarrow> string \<Rightarrow> bool \<Rightarrow> IImageInfo" where
  "createImageInfo now lp rp up =
     \<lparr>localPath = lp, remotePath = rp, isUploaded = up, width = None, height = None,
      align = None, originalName = None, size_bytes = None,
      createTime = Some now, modifyTime = Some now\<rparr>"

record ISettings =
  isAutoUpload :: bool
  isDeleteTemp :: bool
  tempFolderPath :: string
  tempFileFormat :: string
  imageFileExtension :: string
  customUploadCommand :: string

definition DEFAULT_SETTINGS :: ISettings where
  "DEFAULT_SETTINGS =
     \<lparr>isAutoUpload = True, isDeleteTemp = False, tempFolderPath = ''_assets.{{filename}}'',
      tempFileFormat = ''Image{{date}}_{{time}}'',
      imageFileExtension = ''jpg, jpeg, png, gif, webp, bmp, svg'',
      customUploadCommand = []\<rparr>"

text \<open>
  What \<^verbatim>\<open>JSON.parse\<close> of a sidecar gives, as far as \<^verbatim>\<open>loadFromJson\<close> looks at it: a value
  whose property access raises (\<^verbatim>\<open>null\<close>), a value without a truthy \<^verbatim>\<open>images\<close> property,
  or a document with its \<^verbatim>\<open>images\<close> object, listed in the object's property order.
\<close>

datatype json_data =
  JNull
| JNoImages
| JDocument string "(string \<times> IImageInfo) list"

text \<open>
  The host: the vault adapter, the clock, the random source, the upload collaborator, the
  network and the JSON codec, over a state of the world \<^typ>\<open>'w\<close> and the contents of
  files \<^typ>\<open>'c\<close> (a text or an array buffer). A rejected promise is \<^const>\<open>None\<close>; a
  rejected adapter call leaves the world as it was. The upload collaborator and the
  network answer together with the world they leave behind.
\<close>

record ('w, 'c) host =
  adapter_exists :: "'w \<Rightarrow> string \<Rightarrow> bool"
  adapter_read :: "'w \<Rightarrow> string \<Rightarrow> 'c option"
  adapter_write :: "'w \<Rightarrow> string \<Rightarrow> 'c \<Rightarrow> 'w option"
  adapter_readBinary :: "'w \<Rightarrow> string \<Rightarrow> 'c option"
  adapter_writeBinary :: "'w \<Rightarrow> string \<Rightarrow> 'c \<Rightarrow> 'w option"
  adapter_mkdir :: "'w \<Rightarrow> string \<Rightarrow> 'w option"
  adapter_remove :: "'w \<Rightarrow> string \<Rightarrow> 'w option"
  adapter_rmdir :: "'w \<Rightarrow> string \<Rightarrow> 'w option"
  adapter_list :: "'w \<Rightarrow> string \<Rightarrow> string list option"
  adapter_stat :: "'w \<Rightarrow> string \<Rightarrow> int option option"
  vault_getName :: "'w \<Rightarrow> string"
  vault_file_basename :: "'w \<Rightarrow> string \<Rightarrow> string option"
  date_now :: "'w \<Rightarrow> int"
  date_toISOString :: "'w \<Rightarrow> string"
  date_toTimeString :: "'w \<Rightarrow> string"
  math_random :: "'w \<Rightarrow> string \<times> 'w"
  uploader_upload :: "'w \<Rightarrow> string \<Rightarrow> string option \<times> 'w"
  fetch :: "'w \<Rightarrow> string \<Rightarrow> 'c option \<times> 'w"
  JSON_stringify :: "json_data \<Rightarrow> 'c"
  JSON_parse :: "'c \<Rightarrow> json_data option"

text \<open>
  \<^verbatim>\<open>adapter_stat\<close> answers the size of the file, \<^verbatim>\<open>Some None\<close> for a null stat;
  \<^verbatim>\<open>vault_file_basename\<close> is the \<^verbatim>\<open>basename\<close> of the vault's file at a path, when there is one;
  \<^verbatim>\<open>math_random\<close> is \<^verbatim>\<open>Math.random().toString(36)\<close>, which differs from call to call and so
  moves the world on.
\<close>

subsection \<open>The context of a document\<close>

definition getContext :: "('w, 'c) host \<Rightarrow> 'w \<Rightarrow> string \<Rightarrow> magic_context \<times> 'w" where
  "getContext h w filePath =
     (let c0 = (\<lambda>name. None);
          c1 = (case vault_file_basename h w filePath of
                  Some filename \<Rightarrow>
                    c0(''filename'' \<mapsto> Some filename, ''title'' \<mapsto> Some filename,
                       ''workspace'' \<mapsto> Some (vault_getName h w))
                | None \<Rightarrow> c0);
          date = takeWhile (\<lambda>c. c \<noteq> CHR ''T'') (date_toISOString h w);
          time = filter (\<lambda>c. c \<noteq> CHR '':'')
                   (takeWhile (\<lambda>c. c \<noteq> CHR '' '') (date_toTimeString h w));
          (r, w') = math_random h w
      in (c1(''date'' \<mapsto> Some date, ''time'' \<mapsto> Some time,
             ''random'' \<mapsto> Some (substring r 2 10)), w'))"

section \<open>The document image manager\<close>

text \<open>
  The \<^verbatim>\<open>images\<close> map keeps insertion order: a list of entries with distinct keys.
  \<^verbatim>\<open>Map.set\<close> overwrites in place or appends, \<^verbatim>\<open>Map.delete\<close> removes the entry.
\<close>

record DocumentImageManager =
  settings :: ISettings
  mdPath :: string
  images :: "(string \<times> IImageInfo) list"
  imageFolderPath :: string

fun map_set :: "string \<Rightarrow> 'a \<Rightarrow> (string \<times> 'a) list \<Rightarrow> (string \<times> 'a) list" where
  "map_set k v [] = [(k, v)]"
| "map_set k v (e # es) = (if fst e = k then (k, v) # es else e # map_set k v es)"

definition map_delete :: "string \<Rightarrow> (string \<times> 'a) list \<Rightarrow> (string \<times> 'a) list" where
  "map_delete k es = filter (\<lambda>e. fst e \<noteq> k) es"

definition map_has :: "(string \<times> 'a) list \<Rightarrow> string \<Rightarrow> bool" where
  "map_has es k = (map_of es k \<noteq> None)"

definition getJsonPath :: "DocumentImageManager \<Rightarrow> string \<Rightarrow> string" where
  "getJsonPath m folder = join folder (basename_ext (mdPath m) ''.md'' @ ''.json'')"

definition getImageFolderPath :: "('w, 'c) host \<Rightarrow> DocumentImageManager \<Rightarrow> 'w \<Rightarrow> string \<times> 'w" where
  "getImageFolderPath h m w =
     (let mdDir = dirname (mdPath m);
          (ctx, w') = getContext h w (mdPath m);
          relativeFolderPath = process (tempFolderPath (settings m)) ctx
      in (normalizePath (join mdDir relativeFolderPath), w'))"

definition new_DocumentImageManager ::
  "('w, 'c) host \<Rightarrow> ISettings \<Rightarrow> string \<Rightarrow> 'w \<Rightarrow> DocumentImageManager \<times> 'w" where
  "new_DocumentImageManager h st md w =
     (let m = \<lparr>settings = st, mdPath = md, images = [], imageFolderPath = []\<rparr>;
          (folder, w') = getImageFolderPath h m w
      in (m\<lparr>imageFolderPath := folder\<rparr>, w'))"

subsection \<open>Persistence\<close>

text \<open>
  \<^verbatim>\<open>Object.fromEntries\<close> of the map: an object lists its array-index keys first, in
  ascending numeric order, and then the other keys in insertion order.
\<close>

definition is_digit :: "char \<Rightarrow> bool" where
  "is_digit c = (48 \<le> (of_char c :: nat) \<and> (of_char c :: nat) \<le> 57)"

definition digits_value :: "string \<Rightarrow> nat" where
  "digits_value s = foldl (\<lambda>n c. 10 * n + (of_char c - 48)) 0 s"

definition array_index :: "string \<Rightarrow> nat option" where
  "array_index s =
     (if s \<noteq> [] \<and> list_all is_digit s \<and> (s = ''0'' \<or> hd s \<noteq> CHR ''0'')
         \<and> digits_value s < 4294967295
      then Some (digits_value s) else None)"

definition index_key :: "string \<times> 'a \<Rightarrow> nat" where
  "index_key e = (case array_index (fst e) of Some n \<Rightarrow> n | None \<Rightarrow> 0)"

definition Object_fromEntries :: "(string \<times> 'a) list \<Rightarrow> (string \<times> 'a) list" where
  "Object_fromEntries es =
     sort_key index_key (filter (\<lambda>e. array_index (fst e) \<noteq> None) es)
     @ filter (\<lambda>e. array_index (fst e) = None) es"

text \<open>
  The guarded adapter calls of the manager: \<^verbatim>\<open>if (!await exists(p)) await mkdir(p)\<close>,
  \<^verbatim>\<open>if (await exists(p)) await remove(p)\<close> and the same with \<^verbatim>\<open>rmdir(p, true)\<close>.
\<close>

definition ensure_folder :: "('w, 'c) host \<Rightarrow> 'w \<Rightarrow> string \<Rightarrow> 'w option" where
  "ensure_folder h w p = (if \<not> adapter_exists h w p then adapter_mkdir h w p else Some w)"

definition remove_if_exists :: "('w, 'c) host \<Rightarrow> 'w \<Rightarrow> string \<Rightarrow> 'w option" where
  "remove_if_exists h w p = (if adapter_exists h w p then adapter_remove h w p else Some w)"

definition rmdir_if_exists :: "('w, 'c) host \<Rightarrow> 'w \<Rightarrow> string \<Rightarrow> 'w option" where
  "rmdir_if_exists h w p = (if adapter_exists h w p then adapter_rmdir h w p else Some w)"

definition loadFromJson :: "('w, 'c) host \<Rightarrow> DocumentImageManager \<Rightarrow> 'w \<Rightarrow> bool \<times> DocumentImageManager" where
  "loadFromJson h m w =
     (let jsonPath = getJsonPath m (imageFolderPath m) in
      if adapter_exists h w jsonPath then
        (case adapter_read h w jsonPath of
           None \<Rightarrow> (False, m)
         | Some content \<Rightarrow>
             (case JSON_parse h content of
                None \<Rightarrow> (False, m)
              | Some JNull \<Rightarrow> (False, m\<lparr>images := []\<rparr>)
              | Some JNoImages \<Rightarrow> (True, m\<lparr>images := []\<rparr>)
              | Some (JDocument md es) \<Rightarrow>
                  (True, m\<lparr>images := fold (\<lambda>(key, value). map_set key value) es []\<rparr>)))
      else (False, m))"

definition saveToJson :: "('w, 'c) host \<Rightarrow> DocumentImageManager \<Rightarrow> 'w \<Rightarrow> bool \<times> 'w" where
  "saveToJson h m w =
     (let jsonPath = getJsonPath m (imageFolderPath m) in
      if images m = [] then
        (case remove_if_exists h w jsonPath of
           None \<Rightarrow> (False, w)
         | Some w1 \<Rightarrow>
             (case rmdir_if_exists h w1 (imageFolderPath m) of
                None \<Rightarrow> (False, w1)
              | Some w2 \<Rightarrow> (True, w2)))
      else
        (let data = JDocument (mdPath m) (Object_fromEntries (images m)) in
         case ensure_folder h w (imageFolderPath m) of
           None \<Rightarrow> (False, w)
         | Some w1 \<Rightarrow>
             (case adapter_write h w1 jsonPath (JSON_stringify h data) of
                None \<Rightarrow> (False, w1)
              | Some w2 \<Rightarrow> (True, w2))))"

subsection \<open>Adding an image\<close>

text \<open>The decimal digits of a number, as a template literal prints it.\<close>

definition digit_char :: "int \<Rightarrow> char" where
  "digit_char d =
     (if d = 1 then CHR ''1'' else if d = 2 then CHR ''2'' else if d = 3 then CHR ''3''
      else if d = 4 then CHR ''4'' else if d = 5 then CHR ''5'' else if d = 6 then CHR ''6''
      else if d = 7 then CHR ''7'' else if d = 8 then CHR ''8'' else if d = 9 then CHR ''9''
      else CHR ''0'')"

function show_digits :: "int \<Rightarrow> string" where
  "show_digits i =
     (if i < 10 then [digit_char i] else show_digits (i div 10) @ [digit_char (i mod 10)])"
  by pat_completeness auto
termination
  by (relation "measure nat") auto

declare show_digits.simps [simp del]

definition show_int :: "int \<Rightarrow> string" where
  "show_int i = (if i < 0 then CHR ''-'' # show_digits (- i) else show_digits i)"

text \<open>The name \<^verbatim>\<open>copyImageToFolder\<close> writes to when the plain name is taken.\<close>

definition nameWithTimestamp :: "string \<Rightarrow> int \<Rightarrow> string" where
  "nameWithTimestamp newFileName timestamp =
     (let nameWithoutExt = substring newFileName 0 (lastIndexOf newFileName CHR ''.'');
          ext = substring_from newFileName (lastIndexOf newFileName CHR ''.'')
      in nameWithoutExt @ ''_'' @ show_int timestamp @ ext)"

text \<open>\<^verbatim>\<open>copyImageToFolder\<close>: the target path, or \<^const>\<open>None\<close> when it raises.\<close>

definition copyImageToFolder ::
  "('w, 'c) host \<Rightarrow> DocumentImageManager \<Rightarrow> 'w \<Rightarrow> string \<Rightarrow> string option \<times> 'w" where
  "copyImageToFolder h m w sourcePath =
     (let originalName = basename sourcePath;
          newFileName = originalName
      in case ensure_folder h w (imageFolderPath m) of
           None \<Rightarrow> (None, w)
         | Some w1 \<Rightarrow>
             (let targetPath = normalizePath (join (imageFolderPath m) newFileName);
                  destination =
                    (if adapter_exists h w1 targetPath
                     then normalizePath (join (imageFolderPath m)
                            (nameWithTimestamp newFileName (date_now h w1)))
                     else targetPath)
              in case adapter_readBinary h w1 sourcePath of
                   None \<Rightarrow> (None, w1)
                 | Some sourceContent \<Rightarrow>
                     (case adapter_writeBinary h w1 destination sourceContent of
                        None \<Rightarrow> (None, w1)
                      | Some w2 \<Rightarrow> (Some destination, w2))))"

definition getRelativePath :: "DocumentImageManager \<Rightarrow> string \<Rightarrow> string" where
  "getRelativePath m absolutePath =
     (let mdDir = dirname (mdPath m);
          relativePath = replace_first (normalizePath absolutePath) (normalizePath mdDir) []
      in if startsWith relativePath ''/'' then substring_from relativePath 1 else relativePath)"

text \<open>
  \<^verbatim>\<open>uploadImage\<close>. The record it changes is the object the map holds under the key, so
  the change is a \<^const>\<open>map_set\<close> at that key.
\<close>

definition uploadImage ::
  "('w, 'c) host \<Rightarrow> DocumentImageManager \<Rightarrow> 'w \<Rightarrow> string \<Rightarrow> bool \<times> DocumentImageManager \<times> 'w" where
  "uploadImage h m w lp =
     (case map_of (images m) lp of
        None \<Rightarrow> (False, m, w)
      | Some imageInfo \<Rightarrow>
          if isUploaded imageInfo then (True, m, w)
          else
            (case uploader_upload h w lp of
               (None, w1) \<Rightarrow> (False, m, w1)
             | (Some result, w1) \<Rightarrow>
                 (case split_on CHR '','' result of
                    [] \<Rightarrow> (False, m, w1)
                  | url # _ \<Rightarrow>
                      (let info' = imageInfo\<lparr>remotePath := url, isUploaded := True,
                                     modifyTime := Some (date_now h w1)\<rparr>;
                           m1 = m\<lparr>images := map_set lp info' (images m)\<rparr>;
                           (saved, w2) = saveToJson h m1 w1
                       in if isDeleteTemp (settings m1) \<and> adapter_exists h w2 lp then
                            (case adapter_remove h w2 lp of
                               None \<Rightarrow> (False, m1, w2)
                             | Some w3 \<Rightarrow> (True, m1, w3))
                          else (True, m1, w2)))))"

text \<open>
  The record \<^verbatim>\<open>addImage\<close> makes for a copied image: created now, with the name of the
  source and, when the adapter gives a stat, the size of the copy (a failing stat is
  ignored).
\<close>

definition new_image_info :: "('w, 'c) host \<Rightarrow> 'w \<Rightarrow> string \<Rightarrow> string \<Rightarrow> IImageInfo" where
  "new_image_info h w sourcePath targetPath =
     (let imageInfo = (createImageInfo (date_now h w) targetPath [] False)
                        \<lparr>originalName := Some (basename sourcePath)\<rparr>
      in case adapter_stat h w targetPath of
           Some (Some sz) \<Rightarrow> imageInfo\<lparr>size_bytes := Some sz\<rparr>
         | _ \<Rightarrow> imageInfo)"

text \<open>\<^verbatim>\<open>addImage\<close>: the text to insert, or \<^const>\<open>None\<close> when the copy raised.\<close>

definition addImage ::
  "('w, 'c) host \<Rightarrow> DocumentImageManager \<Rightarrow> 'w \<Rightarrow> string \<Rightarrow> string option \<times> DocumentImageManager \<times> 'w" where
  "addImage h m w sourcePath =
     (case copyImageToFolder h m w sourcePath of
        (None, w1) \<Rightarrow> (None, m, w1)
      | (Some targetPath, w1) \<Rightarrow>
          (let imageInfo = new_image_info h w1 sourcePath targetPath;
               m1 = m\<lparr>images := map_set targetPath imageInfo (images m)\<rparr>;
               (saved, w2) = saveToJson h m1 w1
           in if isAutoUpload (settings m1) then
                (case uploadImage h m1 w2 targetPath of
                   (True, m2, w3) \<Rightarrow>
                     (case map_of (images m2) targetPath of
                        Some info \<Rightarrow> (Some (remotePath info), m2, w3)
                      | None \<Rightarrow> (Some (remotePath imageInfo), m2, w3))
                 | (False, m2, w3) \<Rightarrow> (Some (getRelativePath m2 targetPath), m2, w3))
              else (Some (getRelativePath m1 targetPath), m1, w2)))"

subsection \<open>Removing an image\<close>

definition removeImage ::
  "('w, 'c) host \<Rightarrow> DocumentImageManager \<Rightarrow> 'w \<Rightarrow> string \<Rightarrow> bool \<times> DocumentImageManager \<times> 'w" where
  "removeImage h m w lp =
     (if \<not> map_has (images m) lp then (False, m, w)
      else
        (case remove_if_exists h w lp of
           None \<Rightarrow> (False, m, w)
         | Some w1 \<Rightarrow>
             (let m1 = m\<lparr>images := map_delete lp (images m)\<rparr>;
                  (saved, w2) = saveToJson h m1 w1
              in (True, m1, w2))))"

subsection \<open>Uploading and downloading all images\<close>

text \<open>
  The loop of \<^verbatim>\<open>uploadAllImages\<close> walks the entries of the map in order. An upload
  changes the record under its key and neither adds nor removes a key, so the walk is
  over the keys the map had at the start, each record read when its turn comes.
\<close>

fun uploadAll_loop ::
  "('w, 'c) host \<Rightarrow> string list \<Rightarrow> bool \<Rightarrow> DocumentImageManager \<Rightarrow> 'w
   \<Rightarrow> bool \<times> DocumentImageManager \<times> 'w" where
  "uploadAll_loop h [] allSuccess m w = (allSuccess, m, w)"
| "uploadAll_loop h (path # rest) allSuccess m w =
     (case map_of (images m) path of
        None \<Rightarrow> uploadAll_loop h rest allSuccess m w
      | Some info \<Rightarrow>
          if \<not> isUploaded info then
            (case uploadImage h m w path of
               (success, m1, w1) \<Rightarrow> uploadAll_loop h rest (allSuccess \<and> success) m1 w1)
          else uploadAll_loop h rest allSuccess m w)"

definition uploadAllImages ::
  "('w, 'c) host \<Rightarrow> DocumentImageManager \<Rightarrow> 'w \<Rightarrow> bool \<times> DocumentImageManager \<times> 'w" where
  "uploadAllImages h m w = uploadAll_loop h (map fst (images m)) True m w"

text \<open>
  The records an upload is due for, in the order of the map; the upload of each of a list
  of paths in turn, with the outcome of every one; and what it means for a function of
  the world to list the paths handed to the upload collaborator: every call of the
  collaborator appends its path, and the adapter calls of the upload leave the list alone.
\<close>

definition pending :: "DocumentImageManager \<Rightarrow> string list" where
  "pending m = map fst (filter (\<lambda>e. \<not> isUploaded (snd e)) (images m))"

fun upload_each ::
  "('w, 'c) host \<Rightarrow> string list \<Rightarrow> DocumentImageManager \<Rightarrow> 'w
   \<Rightarrow> bool list \<times> DocumentImageManager \<times> 'w" where
  "upload_each h [] m w = ([], m, w)"
| "upload_each h (path # rest) m w =
     (case uploadImage h m w path of
        (success, m1, w1) \<Rightarrow>
          (case upload_each h rest m1 w1 of
             (outcomes, m2, w2) \<Rightarrow> (success # outcomes, m2, w2)))"

definition observes_uploads :: "('w, 'c) host \<Rightarrow> ('w \<Rightarrow> string list) \<Rightarrow> bool" where
  "observes_uploads h log =
     ((\<forall>w p. log (snd (uploader_upload h w p)) = log w @ [p])
      \<and> (\<forall>w p c w'. adapter_write h w p c = Some w' \<longrightarrow> log w' = log w)
      \<and> (\<forall>w p w'. adapter_mkdir h w p = Some w' \<longrightarrow> log w' = log w)
      \<and> (\<forall>w p w'. adapter_remove h w p = Some w' \<longrightarrow> log w' = log w)
      \<and> (\<forall>w p w'. adapter_rmdir h w p = Some w' \<longrightarrow> log w' = log w))"

text \<open>Whether the map holds a record under a key that is not uploaded yet.\<close>

definition pending_key :: "DocumentImageManager \<Rightarrow> string \<Rightarrow> bool" where
  "pending_key m k = (case map_of (images m) k of Some info \<Rightarrow> \<not> isUploaded info | None \<Rightarrow> False)"

text \<open>\<^verbatim>\<open>downloadImage\<close>: the local path written, or \<^const>\<open>None\<close> when it raises. The folder
  is computed afresh from the document path.\<close>

definition downloadImage ::
  "('w, 'c) host \<Rightarrow> DocumentImageManager \<Rightarrow> 'w \<Rightarrow> string \<Rightarrow> string option \<times> 'w" where
  "downloadImage h m w url =
     (let fileName = basename (takeWhile (\<lambda>c. c \<noteq> CHR ''?'') url);
          (folder, w0) = getImageFolderPath h m w
      in case ensure_folder h w0 folder of
           None \<Rightarrow> (None, w0)
         | Some w1 \<Rightarrow>
             (let targetPath = normalizePath (join folder fileName) in
              case fetch h w1 url of
                (None, w2) \<Rightarrow> (None, w2)
              | (Some arrayBuffer, w2) \<Rightarrow>
                  (case adapter_writeBinary h w2 targetPath arrayBuffer of
                     None \<Rightarrow> (None, w2)
                   | Some w3 \<Rightarrow> (Some targetPath, w3))))"

fun downloadAll_loop ::
  "('w, 'c) host \<Rightarrow> string list \<Rightarrow> bool \<Rightarrow> DocumentImageManager \<Rightarrow> 'w
   \<Rightarrow> bool \<times> DocumentImageManager \<times> 'w" where
  "downloadAll_loop h [] allSuccess m w = (allSuccess, m, w)"
| "downloadAll_loop h (path # rest) allSuccess m w =
     (case map_of (images m) path of
        None \<Rightarrow> downloadAll_loop h rest allSuccess m w
      | Some info \<Rightarrow>
          if isUploaded info \<and> (localPath info = [] \<or> \<not> adapter_exists h w (localPath info)) then
            (case downloadImage h m w (remotePath info) of
               (Some lp, w1) \<Rightarrow>
                 downloadAll_loop h rest allSuccess
                   (m\<lparr>images := map_set path
                        (info\<lparr>localPath := lp, modifyTime := Some (date_now h w1)\<rparr>) (images m)\<rparr>) w1
             | (None, w1) \<Rightarrow> downloadAll_loop h rest False m w1)
          else downloadAll_loop h rest allSuccess m w)"

definition downloadAllImages ::
  "('w, 'c) host \<Rightarrow> DocumentImageManager \<Rightarrow> 'w \<Rightarrow> bool \<times> DocumentImageManager \<times> 'w" where
  "downloadAllImages h m w =
     (case downloadAll_loop h (map fst (images m)) True m w of
        (allSuccess, m1, w1) \<Rightarrow>
          (case saveToJson h m1 w1 of (saved, w2) \<Rightarrow> (allSuccess, m1, w2)))"

subsection \<open>Renaming the image folder\<close>

text \<open>
  How a call ends: it returns a value, it raises, or it never returns.
\<close>

datatype 'a outcome = Returns 'a | Raises | Hangs

text \<open>
  The inner loop of the move looks for the entry whose key is the moved file, deletes it
  and sets the entry for the target path. The walk goes on over the map as changed: the
  new entry is met later, and when its key is the moved file again (target and file are
  the same path) it is deleted and set anew without end.
\<close>

definition rekey_image ::
  "string \<Rightarrow> string \<Rightarrow> (string \<times> IImageInfo) list \<Rightarrow> (string \<times> IImageInfo) list option" where
  "rekey_image file targetPath es =
     (case map_of es file of
        None \<Rightarrow> Some es
      | Some info \<Rightarrow>
          if targetPath = file then None
          else Some (map_set targetPath (info\<lparr>localPath := targetPath\<rparr>) (map_delete file es)))"

text \<open>The move of the listed files, inside the \<^verbatim>\<open>try\<close> block: \<^const>\<open>Raises\<close> is caught by
  the caller.\<close>

fun move_files ::
  "('w, 'c) host \<Rightarrow> string \<Rightarrow> string list \<Rightarrow> DocumentImageManager \<Rightarrow> 'w
   \<Rightarrow> unit outcome \<times> DocumentImageManager \<times> 'w" where
  "move_files h oldImageFolder [] m w = (Returns (), m, w)"
| "move_files h oldImageFolder (file # files) m w =
     (case adapter_readBinary h w file of
        None \<Rightarrow> (Raises, m, w)
      | Some content \<Rightarrow>
          (let relativePath = substring_from file (int (length oldImageFolder));
               targetPath = normalizePath (join (imageFolderPath m) relativePath)
           in case adapter_writeBinary h w targetPath content of
                None \<Rightarrow> (Raises, m, w)
              | Some w1 \<Rightarrow>
                  (case adapter_remove h w1 file of
                     None \<Rightarrow> (Raises, m, w1)
                   | Some w2 \<Rightarrow>
                       (case rekey_image file targetPath (images m) of
                          None \<Rightarrow> (Hangs, m, w2)
                        | Some es \<Rightarrow> move_files h oldImageFolder files (m\<lparr>images := es\<rparr>) w2))))"

definition renameImageFolder ::
  "('w, 'c) host \<Rightarrow> DocumentImageManager \<Rightarrow> 'w \<Rightarrow> string
   \<Rightarrow> bool outcome \<times> DocumentImageManager \<times> 'w" where
  "renameImageFolder h m w newMdPath =
     (if images m = [] then (Returns True, m, w)
      else
        (let oldMdPath = mdPath m;
             oldImageFolder = imageFolderPath m;
             oldJsonPath = getJsonPath m oldImageFolder;
             m1 = m\<lparr>mdPath := newMdPath\<rparr>;
             (folder, w1) = getImageFolderPath h m1 w;
             m2 = m1\<lparr>imageFolderPath := folder\<rparr>;
             newJsonPath = getJsonPath m2 folder;
             restore = (\<lambda>m'. m'\<lparr>mdPath := oldMdPath, imageFolderPath := oldImageFolder\<rparr>)
         in if \<not> adapter_exists h w1 oldImageFolder then (Returns True, m2, w1)
            else
              (case ensure_folder h w1 folder of
                 None \<Rightarrow> (Raises, m2, w1)
               | Some w2 \<Rightarrow>
                   if oldImageFolder = folder then
                     (if adapter_exists h w2 oldJsonPath then
                        (case adapter_read h w2 oldJsonPath of
                           None \<Rightarrow> (Raises, m2, w2)
                         | Some content \<Rightarrow>
                             (case adapter_write h w2 newJsonPath content of
                                None \<Rightarrow> (Raises, m2, w2)
                              | Some w3 \<Rightarrow>
                                  (case adapter_remove h w3 oldJsonPath of
                                     None \<Rightarrow> (Raises, m2, w3)
                                   | Some w4 \<Rightarrow> (Returns True, m2, w4))))
                      else (Returns True, m2, w2))
                   else
                     (case adapter_list h w2 oldImageFolder of
                        None \<Rightarrow> (Returns False, restore m2, w2)
                      | Some files \<Rightarrow>
                          (case move_files h oldImageFolder files m2 w2 of
                             (Raises, m3, w3) \<Rightarrow> (Returns False, restore m3, w3)
                           | (Hangs, m3, w3) \<Rightarrow> (Hangs, m3, w3)
                           | (Returns u, m3, w3) \<Rightarrow>
                               (case saveToJson h m3 w3 of
                                  (saved, w4) \<Rightarrow>
                                    (case adapter_rmdir h w4 oldImageFolder of
                                       None \<Rightarrow> (Returns False, restore m3, w4)
                                     | Some w5 \<Rightarrow> (Returns True, m3, w5))))))))"

text \<open>\<^verbatim>\<open>getMarkdownReference\<close>.\<close>

definition getMarkdownReference :: "DocumentImageManager \<Rightarrow> string \<Rightarrow> string" where
  "getMarkdownReference m lp =
     (case map_of (images m) lp of
        None \<Rightarrow> []
      | Some imageInfo \<Rightarrow>
          (let imageName = basename lp;
               imageNameWithoutExt = substring imageName 0 (lastIndexOf imageName CHR ''.'')
           in if isUploaded imageInfo \<and> remotePath imageInfo \<noteq> []
              then ''!['' @ imageNameWithoutExt @ '']('' @ remotePath imageInfo @ '')''
              else ''!['' @ imageNameWithoutExt @ '']('' @ getRelativePath m lp @ '')''))"

subsection \<open>What the manager relies on in a vault\<close>

text \<open>
  A removed path and a removed folder no longer exist and nothing comes into existence
  by removing; a made folder and a written file exist, the file reads back as written,
  and nothing goes out of existence by making or writing.
\<close>

definition vault_laws :: "('w, 'c) host \<Rightarrow> bool" where
  "vault_laws h =
     ((\<forall>w p w'. adapter_remove h w p = Some w' \<longrightarrow>
          \<not> adapter_exists h w' p \<and> (\<forall>q. adapter_exists h w' q \<longrightarrow> adapter_exists h w q))
      \<and> (\<forall>w p w'. adapter_rmdir h w p = Some w' \<longrightarrow>
          \<not> adapter_exists h w' p \<and> (\<forall>q. adapter_exists h w' q \<longrightarrow> adapter_exists h w q))
      \<and> (\<forall>w p w'. adapter_mkdir h w p = Some w' \<longrightarrow>
          adapter_exists h w' p \<and> (\<forall>q. adapter_exists h w q \<longrightarrow> adapter_exists h w' q))
      \<and> (\<forall>w p c w'. adapter_write h w p c = Some w' \<longrightarrow>
          adapter_exists h w' p \<and> adapter_read h w' p = Some c
          \<and> (\<forall>q. adapter_exists h w q \<longrightarrow> adapter_exists h w' q)))"

text \<open>
  Drawing a random number changes no file, and the JSON codec reads back the value it
  has written.
\<close>

definition random_keeps_files :: "('w, 'c) host \<Rightarrow> bool" where
  "random_keeps_files h =
     (\<forall>w p. adapter_exists h (snd (math_random h w)) p = adapter_exists h w p
            \<and> adapter_read h (snd (math_random h w)) p = adapter_read h w p)"

definition json_codec :: "('w, 'c) host \<Rightarrow> bool" where
  "json_codec h = (\<forall>d. JSON_parse h (JSON_stringify h d) = Some d)"

subsection \<open>Names of files\<close>

text \<open>
  A name that is one segment of a path: not empty, not \<^verbatim>\<open>.\<close> or \<^verbatim>\<open>..\<close>, without a slash or a
  backslash. The base name of a source file is one, unless the source path is empty or
  made of slashes and dots only. A path ends with such a name when the name is all of it
  or follows a slash.
\<close>

definition plain_name :: "string \<Rightarrow> bool" where
  "plain_name n =
     (n \<noteq> [] \<and> n \<noteq> ''.'' \<and> n \<noteq> ''..'' \<and> list_all (\<lambda>c. c \<noteq> slash \<and> c \<noteq> CHR 0x5C) n)"

definition ends_with_name :: "string \<Rightarrow> string \<Rightarrow> bool" where
  "ends_with_name p x = (\<exists>pre. p = pre @ x \<and> (pre = [] \<or> last pre = slash))"

section \<open>The custom uploader\<close>

text \<open>
  What \<^verbatim>\<open>exec\<close> hands to its callback: whether there was an error, and the two outputs of
  the command.
\<close>

record exec_result =
  exec_error :: bool
  exec_stdout :: string
  exec_stderr :: string

text \<open>
  The characters \<^verbatim>\<open>\s\<close> and \<^verbatim>\<open>trim\<close> take for white space, and those the dot of a pattern
  does not match, among the characters of one byte.
\<close>

definition is_space :: "char \<Rightarrow> bool" where
  "is_space c = ((of_char c :: nat) \<in> set [9, 10, 11, 12, 13, 32, 160])"

definition is_line_terminator :: "char \<Rightarrow> bool" where
  "is_line_terminator c = ((of_char c :: nat) \<in> set [10, 13])"

definition trim :: "string \<Rightarrow> string" where
  "trim s = rev (dropWhile is_space (rev (dropWhile is_space s)))"

text \<open>
  The text after the first occurrence of a separator, when there is one, and the text
  before it: \<^verbatim>\<open>s.includes(sep)\<close> is that there is an occurrence, and \<^verbatim>\<open>s.split(sep)[1]\<close> is
  then the text after the first occurrence up to the next one.
\<close>

fun after_first :: "string \<Rightarrow> string \<Rightarrow> string option" where
  "after_first sep [] = (if sep = [] then Some [] else None)"
| "after_first sep (c # cs) =
     (if startsWith (c # cs) sep then Some (drop (length sep) (c # cs)) else after_first sep cs)"

fun before_first :: "string \<Rightarrow> string \<Rightarrow> string" where
  "before_first sep [] = []"
| "before_first sep (c # cs) =
     (if startsWith (c # cs) sep then [] else c # before_first sep cs)"

text \<open>
  The pattern \<^verbatim>\<open>/^\[(\d+)\]\s*(https?:\/\/.+?)(?:\s|$)/\<close> on a line: the digits of the index
  and the address. The lazy \<^verbatim>\<open>.+?\<close> takes one character, which the dot has to match, and
  then goes on up to the first white space or the end of the line.
\<close>

definition match_scheme :: "string \<Rightarrow> string option" where
  "match_scheme s =
     (if startsWith s ''https://'' then Some ''https://''
      else if startsWith s ''http://'' then Some ''http://''
      else None)"

definition match_line :: "string \<Rightarrow> (string \<times> string) option" where
  "match_line line =
     (case line of
        [] \<Rightarrow> None
      | c # afterBracket \<Rightarrow>
          if c = CHR ''['' then
            (let index = takeWhile is_digit afterBracket in
             if index = [] then None
             else
               (case dropWhile is_digit afterBracket of
                  [] \<Rightarrow> None
                | c' # afterIndex \<Rightarrow>
                    if c' = CHR '']'' then
                      (let address = dropWhile is_space afterIndex in
                       case match_scheme address of
                         None \<Rightarrow> None
                       | Some scheme \<Rightarrow>
                           (case drop (length scheme) address of
                              [] \<Rightarrow> None
                            | d # ds \<Rightarrow>
                                if is_line_terminator d then None
                                else Some (index, scheme @ d # takeWhile (\<lambda>x. \<not> is_space x) ds)))
                    else None))
          else None)"

text \<open>\<^verbatim>\<open>urlMap.set\<close>: a map from numbers to addresses, in insertion order.\<close>

fun url_map_set :: "'n \<Rightarrow> string \<Rightarrow> ('n \<times> string) list \<Rightarrow> ('n \<times> string) list" where
  "url_map_set k v [] = [(k, v)]"
| "url_map_set k v ((k', v') # es) =
     (if k' = k then (k, v) # es else (k', v') # url_map_set k v es)"

text \<open>
  \<^verbatim>\<open>parseURL\<close>: the addresses in the order of their indices, or \<^const>\<open>None\<close> when it throws.
  \<^verbatim>\<open>parseInt\<close>, the number a string of digits stands for, is a parameter: the order of the
  numbers is all that is used of them.
\<close>

definition parseURL :: "(string \<Rightarrow> 'n :: linorder) \<Rightarrow> string \<Rightarrow> nat \<Rightarrow> string list option" where
  "parseURL parseInt result fileCount =
     (case after_first ''Successfully uploaded:'' result of
        None \<Rightarrow> None
      | Some rest \<Rightarrow>
          (let lines = split_on CHR 0x0A (before_first ''Successfully uploaded:'' rest);
               urlMap = fold (\<lambda>line urlMap.
                                case match_line line of
                                  None \<Rightarrow> urlMap
                                | Some (index, url) \<Rightarrow> url_map_set (parseInt index) (trim url) urlMap)
                          lines [];
               urls = map snd (sort_key fst urlMap)
           in if urls = [] then None
              else if length urls = fileCount then Some urls
              else None))"

text \<open>
  \<^verbatim>\<open>CustomUploader.upload\<close>, over the \<^verbatim>\<open>exec\<close> of the host: the addresses joined by commas, or
  \<^const>\<open>None\<close> when the promise is rejected.
\<close>

definition CustomUploader_upload ::
  "(string \<Rightarrow> 'n :: linorder) \<Rightarrow> string \<Rightarrow> ('w \<Rightarrow> string \<Rightarrow> exec_result \<times> 'w)
   \<Rightarrow> 'w \<Rightarrow> string \<Rightarrow> string option \<times> 'w" where
  "CustomUploader_upload parseInt command exec w files =
     (if command = [] then (None, w)
      else
        (let fileCount = length (split_on CHR '','' files);
             (r, w1) = exec w (command @ '' '' @ files)
         in if exec_error r then (None, w1)
            else if exec_stderr r = [] then
              (case parseURL parseInt (exec_stdout r) fileCount of
                 None \<Rightarrow> (None, w1)
               | Some urls \<Rightarrow> (Some (join_with '','' urls), w1))
            else (None, w1)))"

section \<open>Sequences of operations\<close>

datatype operation =
    AddImage string
  | UploadAllImages
  | DownloadAllImages
  | RemoveImage string
  | RenameImageFolder string

text \<open>
  An operation on a manager in a world gives the manager and the world as the call
  leaves them, whatever way it ends; a sequence of operations is run from left to right.
\<close>

fun perform ::
  "('w, 'c) host \<Rightarrow> operation \<Rightarrow> DocumentImageManager \<times> 'w \<Rightarrow> DocumentImageManager \<times> 'w" where
  "perform h (AddImage sourcePath) (m, w) = snd (addImage h m w sourcePath)"
| "perform h UploadAllImages (m, w) = snd (uploadAllImages h m w)"
| "perform h DownloadAllImages (m, w) = snd (downloadAllImages h m w)"
| "perform h (RemoveImage lp) (m, w) = snd (removeImage h m w lp)"
| "perform h (RenameImageFolder newMdPath) (m, w) = snd (renameImageFolder h m w newMdPath)"

definition perform_all ::
  "('w, 'c) host \<Rightarrow> operation list \<Rightarrow> DocumentImageManager \<times> 'w \<Rightarrow> DocumentImageManager \<times> 'w" where
  "perform_all h ops = fold (perform h) ops"

text \<open>The invariant: a record that is marked uploaded has a remote path.\<close>

definition remote_when_uploaded :: "IImageInfo \<Rightarrow> bool" where
  "remote_when_uploaded info = (isUploaded info \<longrightarrow> remotePath info \<noteq> [])"

definition uploaded_have_remote :: "DocumentImageManager \<Rightarrow> bool" where
  "uploaded_have_remote m = list_all (\<lambda>e. remote_when_uploaded (snd e)) (images m)"

text \<open>
  What the invariant asks of the upload collaborator: the first of the addresses it
  answers with is not empty. An address that begins with \<^verbatim>\<open>h\<close>, as every address of
  the custom uploader does, is one.
\<close>

definition gives_address :: "('w, 'c) host \<Rightarrow> bool" where
  "gives_address h =
     (\<forall>w p r w'. uploader_upload h w p = (Some r, w') \<longrightarrow> hd (split_on CHR '','' r) \<noteq> [])"

definition starts_with_h :: "string \<Rightarrow> bool" where
  "starts_with_h u = startsWith u ''h''"

section \<open>The manager factory\<close>

text \<open>
  The cache holds the managers themselves: what a call does to a cached manager is seen
  under the key the manager is cached at.
\<close>

record ImageManagerFactory =
  plugin_settings :: ISettings
  managers :: "(string \<times> DocumentImageManager) list"

definition getManager ::
  "('w, 'c) host \<Rightarrow> ImageManagerFactory \<Rightarrow> 'w \<Rightarrow> string
   \<Rightarrow> DocumentImageManager \<times> ImageManagerFactory \<times> 'w" where
  "getManager h f w md =
     (case map_of (managers f) md of
        Some manager \<Rightarrow> (manager, f, w)
      | None \<Rightarrow>
          (case new_DocumentImageManager h (plugin_settings f) md w of
             (m0, w1) \<Rightarrow>
               (case loadFromJson h m0 w1 of
                  (loaded, manager) \<Rightarrow>
                    (manager, f\<lparr>managers := map_set md manager (managers f)\<rparr>, w1))))"

definition removeManager :: "ImageManagerFactory \<Rightarrow> string \<Rightarrow> ImageManagerFactory" where
  "removeManager f md = f\<lparr>managers := map_delete md (managers f)\<rparr>"

definition renameManager ::
  "('w, 'c) host \<Rightarrow> ImageManagerFactory \<Rightarrow> 'w \<Rightarrow> string \<Rightarrow> string
   \<Rightarrow> bool outcome \<times> ImageManagerFactory \<times> 'w" where
  "renameManager h f w oldPath newPath =
     (case map_of (managers f) oldPath of
        None \<Rightarrow> (Returns False, f, w)
      | Some manager \<Rightarrow>
          (case renameImageFolder h manager w newPath of
             (Returns success, manager', w') \<Rightarrow>
               (let cached = map_set oldPath manager' (managers f) in
                if success
                then (Returns True,
                      f\<lparr>managers := map_delete oldPath (map_set newPath manager' cached)\<rparr>, w')
                else (Returns False, f\<lparr>managers := cached\<rparr>, w'))
           | (r, manager', w') \<Rightarrow> (r, f\<lparr>managers := map_set oldPath manager' (managers f)\<rparr>, w')))"

section \<open>A vault in memory\<close>

text \<open>
  A small host on which the scenarios are run: files and folders by path, paths the
  adapter refuses to change, a supply of random strings, a clock, the answers of the
  upload collaborator per path and the list of the paths it has been handed. A text is
  kept as the JSON value it renders, any other content as its bytes.
\<close>

datatype content = JsonText json_data | Bytes string

record vault =
  files :: "(string \<times> content) list"
  folders :: "string list"
  locked :: "string list"
  randoms :: "string list"
  clock :: int
  remote :: "(string \<times> string) list"
  uploads :: "string list"

definition under :: "string \<Rightarrow> string \<Rightarrow> bool" where
  "under folder path = startsWith path (folder @ ''/'')"

definition v_exists :: "vault \<Rightarrow> string \<Rightarrow> bool" where
  "v_exists w p = (map_of (files w) p \<noteq> None \<or> p \<in> set (folders w))"

definition v_read :: "vault \<Rightarrow> string \<Rightarrow> content option" where
  "v_read w p = map_of (files w) p"

definition v_write :: "vault \<Rightarrow> string \<Rightarrow> content \<Rightarrow> vault option" where
  "v_write w p c =
     (if p \<in> set (folders w) \<or> p \<in> set (locked w) then None
      else Some (w\<lparr>files := map_set p c (files w)\<rparr>))"

definition v_mkdir :: "vault \<Rightarrow> string \<Rightarrow> vault option" where
  "v_mkdir w p =
     (if map_of (files w) p \<noteq> None \<or> p \<in> set (locked w) then None
      else Some (w\<lparr>folders := p # folders w\<rparr>))"

definition v_remove :: "vault \<Rightarrow> string \<Rightarrow> vault option" where
  "v_remove w p =
     (if map_of (files w) p = None \<or> p \<in> set (folders w) \<or> p \<in> set (locked w) then None
      else Some (w\<lparr>files := map_delete p (files w)\<rparr>))"

definition v_rmdir :: "vault \<Rightarrow> string \<Rightarrow> vault option" where
  "v_rmdir w p =
     (if p \<notin> set (folders w) \<or> p \<in> set (locked w) then None
      else Some (w\<lparr>files := filter (\<lambda>e. fst e \<noteq> p \<and> \<not> under p (fst e)) (files w),
                    folders := filter (\<lambda>d. d \<noteq> p \<and> \<not> under p d) (folders w)\<rparr>))"

definition v_list :: "vault \<Rightarrow> string \<Rightarrow> string list option" where
  "v_list w p =
     (if p \<in> set (folders w) then Some (filter (\<lambda>f. dirname f = p) (map fst (files w)))
      else None)"

definition v_stat :: "vault \<Rightarrow> string \<Rightarrow> int option option" where
  "v_stat w p =
     Some (case map_of (files w) p of
             Some (Bytes b) \<Rightarrow> Some (int (length b))
           | Some (JsonText d) \<Rightarrow> Some 0
           | None \<Rightarrow> if p \<in> set (folders w) then Some 0 else None)"

definition v_file_basename :: "vault \<Rightarrow> string \<Rightarrow> string option" where
  "v_file_basename w p =
     (case map_of (files w) p of
        None \<Rightarrow> None
      | Some c \<Rightarrow>
          (let name = basename p; dot = lastIndexOf name CHR ''.''
           in Some (if dot \<le> 0 then name else substring name 0 dot)))"

definition v_random :: "vault \<Rightarrow> string \<times> vault" where
  "v_random w =
     (case randoms w of
        [] \<Rightarrow> (''0.4fzyo82mvyr'', w)
      | r # rs \<Rightarrow> (r, w\<lparr>randoms := rs\<rparr>))"

definition v_upload :: "vault \<Rightarrow> string \<Rightarrow> string option \<times> vault" where
  "v_upload w p = (map_of (remote w) p, w\<lparr>uploads := uploads w @ [p]\<rparr>)"

definition v_fetch :: "vault \<Rightarrow> string \<Rightarrow> content option \<times> vault" where
  "v_fetch w url = (map_option (\<lambda>p. Bytes p) (map_of (map (\<lambda>(p, u). (u, p)) (remote w)) url), w)"

definition v_parse :: "content \<Rightarrow> json_data option" where
  "v_parse c = (case c of JsonText d \<Rightarrow> Some d | Bytes b \<Rightarrow> None)"

definition vault_host :: "(vault, content) host" where
  "vault_host =
     \<lparr>adapter_exists = v_exists, adapter_read = v_read, adapter_write = v_write,
      adapter_readBinary = v_read, adapter_writeBinary = v_write, adapter_mkdir = v_mkdir,
      adapter_remove = v_remove, adapter_rmdir = v_rmdir, adapter_list = v_list,
      adapter_stat = v_stat, vault_getName = (\<lambda>w. ''vault''),
      vault_file_basename = v_file_basename,
      date_now = clock, date_toISOString = (\<lambda>w. ''2025-03-04T05:06:07.000Z''),
      date_toTimeString = (\<lambda>w. ''05:06:07 GMT+0000 (Coordinated Universal Time)''),
      math_random = v_random, uploader_upload = v_upload, fetch = v_fetch,
      JSON_stringify = JsonText, JSON_parse = v_parse\<rparr>"

definition empty_vault :: vault where
  "empty_vault =
     \<lparr>files = [], folders = [], locked = [], randoms = [], clock = 1700000000000,
      remote = [], uploads = []\<rparr>"

section \<open>Scenarios\<close>

text \<open>
  The managers, factories and vaults on which the properties below are exercised: a
  document \<^verbatim>\<open>notes/a.md\<close> with one image under the default folder template, a document at
  the root of the vault, and a vault that refuses to delete or change some paths.
\<close>

definition notes_manager :: DocumentImageManager where
  "notes_manager =
     \<lparr>settings = DEFAULT_SETTINGS, mdPath = ''notes/a.md'',
      images = [(''notes/_assets.a/img.png'',
                 createImageInfo 1700000000000 ''notes/_assets.a/img.png'' [] False)],
      imageFolderPath = ''notes/_assets.a''\<rparr>"

definition locked_vault :: vault where
  "locked_vault =
     empty_vault\<lparr>files := [(''notes/a.md'', Bytes ''# a''), (''notes/_assets.a/img.png'', Bytes ''PNG'')],
                 folders := [''notes/_assets.a''],
                 locked := [''notes/_assets.a/img.png'']\<rparr>"

definition root_manager :: DocumentImageManager where
  "root_manager =
     \<lparr>settings = DEFAULT_SETTINGS\<lparr>isAutoUpload := False\<rparr>, mdPath = ''doc.md'',
      images = [], imageFolderPath = ''_assets.doc''\<rparr>"

definition root_vault :: vault where
  "root_vault = empty_vault\<lparr>files := [(''doc.md'', Bytes ''# doc''), (''tmp/img.png'', Bytes ''PNG'')]\<rparr>"

definition notes_factory :: ImageManagerFactory where
  "notes_factory = \<lparr>plugin_settings = DEFAULT_SETTINGS, managers = [(''notes/a.md'', notes_manager)]\<rparr>"

definition renamed_vault :: vault where
  "renamed_vault =
     empty_vault\<lparr>files := [(''notes/b.md'', Bytes ''# a''), (''notes/_assets.a/img.png'', Bytes ''PNG'')],
                 folders := [''notes/_assets.a'']\<rparr>"

definition empty_manager :: DocumentImageManager where
  "empty_manager =
     \<lparr>settings = DEFAULT_SETTINGS, mdPath = ''notes/b.md'', images = [],
      imageFolderPath = ''notes/_assets.b''\<rparr>"

definition empty_factory :: ImageManagerFactory where
  "empty_factory =
     \<lparr>plugin_settings = DEFAULT_SETTINGS, managers = [(''notes/b.md'', empty_manager)]\<rparr>"

definition five_manager :: DocumentImageManager where
  "five_manager =
     \<lparr>settings = DEFAULT_SETTINGS, mdPath = ''notes/a.md'',
      images =
        [(''notes/_assets.a/1.png'', createImageInfo 1 ''notes/_assets.a/1.png'' ''https://x/1.png'' True),
         (''notes/_assets.a/2.png'', createImageInfo 2 ''notes/_assets.a/2.png'' [] False),
         (''notes/_assets.a/3.png'', createImageInfo 3 ''notes/_assets.a/3.png'' ''https://x/3.png'' True),
         (''notes/_assets.a/4.png'', createImageInfo 4 ''notes/_assets.a/4.png'' [] False),
         (''notes/_assets.a/5.png'', createImageInfo 5 ''notes/_assets.a/5.png'' ''https://x/5.png'' True)],
      imageFolderPath = ''notes/_assets.a''\<rparr>"

definition five_vault :: vault where
  "five_vault =
     empty_vault\<lparr>files := [(''notes/a.md'', Bytes ''# a'')], folders := [''notes/_assets.a''],
                 remote := [(''notes/_assets.a/4.png'', ''https://x/4.png'')]\<rparr>"

definition random_settings :: ISettings where
  "random_settings =
     DEFAULT_SETTINGS\<lparr>isAutoUpload := False, tempFolderPath := ''_assets.{{random}}''\<rparr>"

definition random_vault :: vault where
  "random_vault =
     empty_vault\<lparr>files := [(''doc.md'', Bytes ''# doc''), (''tmp/img.png'', Bytes ''PNG'')],
                 randoms := [''0.aaaaaaaaaaa'', ''0.bbbbbbbbbbb'']\<rparr>"

text \<open>A manager made in that vault with those settings, after one image has been added
  and the map saved: the manager, the outcome of the save and the vault it leaves.\<close>

definition random_saved :: "DocumentImageManager \<times> bool \<times> vault" where
  "random_saved =
     (case new_DocumentImageManager vault_host random_settings ''doc.md'' random_vault of
        (m, w) \<Rightarrow>
          (case addImage vault_host m w ''tmp/img.png'' of
             (inserted, m1, w1) \<Rightarrow> (m1, saveToJson vault_host m1 w1)))"

text \<open>
  A document without images yet, in a vault that holds three images of the same name in
  three folders; the same document when local copies are deleted after their upload.
\<close>

definition twice_manager :: DocumentImageManager where
  "twice_manager =
     \<lparr>settings = DEFAULT_SETTINGS\<lparr>isAutoUpload := False\<rparr>, mdPath = ''notes/b.md'', images = [],
      imageFolderPath = ''notes/_assets.b''\<rparr>"

definition twice_vault :: vault where
  "twice_vault =
     empty_vault\<lparr>files := [(''notes/b.md'', Bytes ''# b''), (''tmp/img.png'', Bytes ''PNG1''),
                           (''clip/img.png'', Bytes ''PNG2''), (''shot/img.png'', Bytes ''PNG3'')],
                 remote := [(''notes/_assets.b/img.png'', ''https://x/img.png'')]\<rparr>"

definition delete_temp_manager :: DocumentImageManager where
  "delete_temp_manager = twice_manager\<lparr>settings := DEFAULT_SETTINGS\<lparr>isDeleteTemp := True\<rparr>\<rparr>"

text \<open>
  A command that answers every call with one address, and the host whose upload
  collaborator is the custom uploader running that command.
\<close>

definition v_exec :: "vault \<Rightarrow> string \<Rightarrow> exec_result \<times> vault" where
  "v_exec w command =
     (\<lparr>exec_error = False,
       exec_stdout = ''Uploading 1 file'' @ [CHR 0x0A] @ ''Successfully uploaded:'' @ [CHR 0x0A]
                     @ ''[1] https://x/img.png'' @ [CHR 0x0A],
       exec_stderr = []\<rparr>,
      w\<lparr>uploads := uploads w @ [command]\<rparr>)"

definition custom_host :: "(vault, content) host" where
  "custom_host =
     vault_host\<lparr>uploader_upload := CustomUploader_upload digits_value ''python uploader.py -f'' v_exec\<rparr>"

text \<open>A vault whose upload collaborator answers with the empty string.\<close>

definition empty_address_vault :: vault where
  "empty_address_vault = twice_vault\<lparr>remote := [(''notes/_assets.b/img.png'', [])]\<rparr>"

section \<open>Substitution of magic variables\<close>

lemma not_word_brace [simp]: "\<not> is_word_char CHR ''{''" "\<not> is_word_char CHR ''}''"
  by (simp_all add: is_word_char_def)

lemma match_placeholder_word:
  assumes "name \<noteq> []" "list_all is_word_char name"
  shows "match_placeholder (''{{'' @ name @ ''}}'' @ post) = Some (name, post)"
proof -
  have "takeWhile is_word_char (name @ ''}}'' @ post) = name"
    using assms(2) by (simp add: takeWhile_append2 list_all_iff)
  moreover have "dropWhile is_word_char (name @ ''}}'' @ post) = ''}}'' @ post"
    using assms(2) by (simp add: dropWhile_append2 list_all_iff)
  ultimately show ?thesis using assms(1)
    by (simp add: match_placeholder_def startsWith_def)
qed

lemma match_placeholder_sound:
  assumes "match_placeholder s = Some (name, rest)"
  shows "s = ''{{'' @ name @ ''}}'' @ rest \<and> name \<noteq> [] \<and> list_all is_word_char name"
proof -
  let ?d = "drop 2 s"
  from assms have h: "startsWith s ''{{''" "name = takeWhile is_word_char ?d"
    "name \<noteq> []" "startsWith (dropWhile is_word_char ?d) ''}}''"
    "rest = drop 2 (dropWhile is_word_char ?d)"
    by (auto simp: match_placeholder_def Let_def split: if_splits)
  from h(1) have s: "s = ''{{'' @ ?d"
    by (metis append_take_drop_id length_Cons list.size(3) numeral_2_eq_2 startsWith_def)
  from h(4) have "dropWhile is_word_char ?d = ''}}'' @ rest"
    unfolding h(5) startsWith_def
    by (metis append_take_drop_id length_Cons list.size(3) numeral_2_eq_2)
  then have "?d = name @ ''}}'' @ rest"
    unfolding h(2) by (metis takeWhile_dropWhile_id)
  moreover have "list_all is_word_char name"
    unfolding h(2) by (simp add: list_all_iff) (meson set_takeWhileD)
  ultimately show ?thesis using s h(3) by simp
qed

lemma match_placeholder_append_gen:
  assumes "xs \<noteq> []" and u: "startsWith u ''{{''"
  shows "match_placeholder (xs @ u) = map_option (\<lambda>(n, r). (n, r @ u)) (match_placeholder xs)"
proof -
  from u obtain t where ut: "u = CHR ''{'' # CHR ''{'' # t"
    by (cases u; cases "tl u") (auto simp: startsWith_def)
  have nw: "\<not> is_word_char (hd u)" "u \<noteq> []" "\<not> startsWith u ''}}''"
    by (simp_all add: ut startsWith_def)
  show ?thesis
  proof (cases "startsWith xs ''{{''")
    case False
    have "match_placeholder (xs @ u) = None"
    proof (cases "xs = ''{''")
      case True
      then show ?thesis by (simp add: match_placeholder_def startsWith_def ut)
    next
      case ne: False
      with False have "\<not> startsWith (xs @ u) ''{{''"
        using assms(1) by (cases xs; cases "tl xs") (auto simp: startsWith_def)
      then show ?thesis by (simp add: match_placeholder_def)
    qed
    with False show ?thesis by (simp add: match_placeholder_def)
  next
    case True
    then obtain r where xs: "xs = CHR ''{'' # CHR ''{'' # r"
      by (cases xs; cases "tl xs") (auto simp: startsWith_def)
    define B where "B = (\<lambda>d. let name = takeWhile is_word_char d; rest = dropWhile is_word_char d
         in if name \<noteq> [] \<and> startsWith rest ''}}'' then Some (name, drop 2 rest) else None)"
    have m1: "match_placeholder xs = B r" and m2: "match_placeholder (xs @ u) = B (r @ u)"
      by (simp_all add: match_placeholder_def xs startsWith_def B_def)
    show ?thesis
    proof (cases "list_all is_word_char r")
      case all: True
      then have "takeWhile is_word_char (r @ u) = r"
        "dropWhile is_word_char (r @ u) = u"
        "takeWhile is_word_char r = r" "dropWhile is_word_char r = []"
        using nw(1,2)
        by (simp_all add: takeWhile_append2 dropWhile_append2 list_all_iff
            takeWhile_eq_Nil_iff dropWhile_eq_self_iff)
      note eqs = this
      have "B r = None" "B (r @ u) = None"
        using nw(3) by (simp_all add: B_def startsWith_def eqs)
      then show ?thesis by (simp add: m1 m2)
    next
      case False
      then have ex: "\<exists>x\<in>set r. \<not> is_word_char x" by (simp add: list_all_iff)
      then obtain x where x: "x \<in> set r" "\<not> is_word_char x" by blast
      have tw: "takeWhile is_word_char (r @ u) = takeWhile is_word_char r"
        and dw: "dropWhile is_word_char (r @ u) = dropWhile is_word_char r @ u"
        using x by (rule takeWhile_append1, rule dropWhile_append1)
      define d where "d = dropWhile is_word_char r"
      have dne: "d \<noteq> []" using ex by (simp add: d_def dropWhile_eq_Nil_conv)
      have s2: "startsWith (d @ u) ''}}'' = startsWith d ''}}''"
        using dne by (cases d; cases "tl d") (auto simp: startsWith_def ut)
      have dr: "startsWith d ''}}'' \<Longrightarrow> drop 2 (d @ u) = drop 2 d @ u"
        by (cases d; cases "tl d") (auto simp: startsWith_def)
      have "B (r @ u) = map_option (\<lambda>(n, r). (n, r @ u)) (B r)"
        unfolding B_def tw dw d_def [symmetric] Let_def using s2 dr by simp
      then show ?thesis by (simp add: m1 m2)
    qed
  qed
qed

lemma match_placeholder_append:
  assumes "xs \<noteq> []"
  shows "match_placeholder (xs @ ''{{'' @ t) =
         map_option (\<lambda>(n, r). (n, r @ ''{{'' @ t)) (match_placeholder xs)"
  by (rule match_placeholder_append_gen [OF assms]) (simp add: startsWith_def)

lemma replace_placeholders_append:
  assumes "name \<noteq> []" "list_all is_word_char name"
  shows "replace_placeholders ctx (pre @ ''{{'' @ name @ ''}}'' @ post) =
         replace_placeholders ctx pre @ replace_variable ctx name @
         replace_placeholders ctx post"
proof (induction ctx pre rule: replace_placeholders.induct)
  case (1 ctx)
  have "match_placeholder (''{{'' @ name @ ''}}'' @ post) = Some (name, post)"
    using assms by (rule match_placeholder_word)
  then show ?case by simp
next
  case (2 ctx c cs)
  let ?t = "name @ ''}}'' @ post"
  have m: "match_placeholder ((c # cs) @ ''{{'' @ ?t) =
           map_option (\<lambda>(n, r). (n, r @ ''{{'' @ ?t)) (match_placeholder (c # cs))"
    by (rule match_placeholder_append) simp
  show ?case
  proof (cases "match_placeholder (c # cs)")
    case None
    with m have "match_placeholder (c # cs @ ''{{'' @ ?t) = None" by simp
    with None 2 show ?thesis by simp
  next
    case (Some p)
    obtain n r where p: "p = (n, r)" by (cases p)
    with m Some have "match_placeholder (c # cs @ ''{{'' @ ?t) = Some (n, r @ ''{{'' @ ?t)" by simp
    with Some p 2 show ?thesis by simp
  qed
qed

lemma replace_placeholders_id:
  "\<not> has_placeholder t \<Longrightarrow> replace_placeholders ctx t = t"
proof (induction t)
  case Nil
  then show ?case by simp
next
  case (Cons c cs)
  have "\<not> has_placeholder cs"
  proof
    assume "has_placeholder cs"
    then obtain pre name post where "cs = pre @ ''{{'' @ name @ ''}}'' @ post" "name \<noteq> []" "list_all is_word_char name"
      unfolding has_placeholder_def by blast
    then have "c # cs = (c # pre) @ ''{{'' @ name @ ''}}'' @ post" by simp
    with \<open>name \<noteq> []\<close> \<open>list_all is_word_char name\<close> have "has_placeholder (c # cs)"
      unfolding has_placeholder_def by blast
    with Cons.prems show False by simp
  qed
  moreover have "match_placeholder (c # cs) = None"
  proof (cases "match_placeholder (c # cs)")
    case (Some p)
    obtain n r where "p = (n, r)" by (cases p)
    with Some have "c # cs = [] @ ''{{'' @ n @ ''}}'' @ r \<and> n \<noteq> [] \<and> list_all is_word_char n"
      using match_placeholder_sound by fastforce
    then have "has_placeholder (c # cs)" unfolding has_placeholder_def by blast
    with Cons.prems show ?thesis by simp
  qed simp
  ultimately show ?case using Cons.IH by simp
qed

lemma process_replace: "process t ctx = replace_placeholders ctx t"
  by (simp add: process_def)

lemma has_placeholder_brace: "has_placeholder t \<Longrightarrow> CHR ''{'' \<in> set t"
  by (auto simp: has_placeholder_def)

text \<open>
  What the substitution does on every template and context: the empty template gives
  the empty string, an occurrence of \<^verbatim>\<open>{{name}}\<close> is rewritten by the replacement callback
  whatever stands before and after it, and a template without placeholders is returned
  unchanged.
\<close>

lemma process_placeholders:
  "process [] ctx = []"
  "name \<noteq> [] \<Longrightarrow> list_all is_word_char name \<Longrightarrow>
     process (pre @ ''{{'' @ name @ ''}}'' @ post) ctx =
       process pre ctx @ replace_variable ctx name @ process post ctx"
  "\<not> has_placeholder t \<Longrightarrow> process t ctx = t"
proof -
  show "process [] ctx = []" by (simp add: process_def)
next
  assume "name \<noteq> []" "list_all is_word_char name"
  then have "replace_placeholders ctx (pre @ ''{{'' @ name @ ''}}'' @ post) =
      replace_placeholders ctx pre @ replace_variable ctx name @ replace_placeholders ctx post"
    by (rule replace_placeholders_append)
  then show "process (pre @ ''{{'' @ name @ ''}}'' @ post) ctx =
      process pre ctx @ replace_variable ctx name @ process post ctx"
    by (simp only: process_replace)
next
  assume "\<not> has_placeholder t"
  then show "process t ctx = t"
    by (simp add: process_replace replace_placeholders_id)
qed

text \<open>
  The callback on a name that \<^verbatim>\<open>Object.prototype\<close> does not have: the value of the
  context's own property when it is a string, the placeholder as written otherwise. On a
  name the context does not have but \<^verbatim>\<open>Object.prototype\<close> has, the inherited member.
\<close>

lemma replace_variable_own:
  "Object_prototype name = None \<Longrightarrow>
     replace_variable ctx name =
       (case ctx name of Some (Some v) \<Rightarrow> v | _ \<Rightarrow> ''{{'' @ name @ ''}}'')"
  by (simp add: replace_variable_def has_property_def get_property_def split: option.splits)

lemma replace_variable_inherited:
  "ctx name = None \<Longrightarrow> Object_prototype name = Some v \<Longrightarrow> replace_variable ctx name = v"
  by (simp add: replace_variable_def has_property_def get_property_def)

text \<open>
  C7 does not hold of the code. A placeholder whose name is not a key of the context is
  to stay as it is written, and the callback says so (``if variable doesn't exist, keep
  original content''), but it tests \<^verbatim>\<open>variable in context\<close>, which is true of every name
  that \<^verbatim>\<open>Object.prototype\<close> defines. The context of the document \<^verbatim>\<open>doc.md\<close> has the keys
  \<^verbatim>\<open>filename\<close>, \<^verbatim>\<open>title\<close>, \<^verbatim>\<open>workspace\<close>, \<^verbatim>\<open>date\<close>, \<^verbatim>\<open>time\<close> and \<^verbatim>\<open>random\<close> and no key
  \<^verbatim>\<open>constructor\<close>; yet the template \<^verbatim>\<open>_assets.{{constructor}}\<close> comes out with the text of
  the function \<^verbatim>\<open>Object\<close> in place of the placeholder. The same happens in the empty context
  for \<^verbatim>\<open>{{toString}}\<close> and \<^verbatim>\<open>{{__proto__}}\<close>, while \<^verbatim>\<open>{{nothing}}\<close> stays.
\<close>

theorem process_replaces_inherited_name:
  "fst (getContext vault_host root_vault ''doc.md'') ''filename'' = Some (Some ''doc'')
   \<and> fst (getContext vault_host root_vault ''doc.md'') ''constructor'' = None
   \<and> process ''_assets.{{filename}}'' (fst (getContext vault_host root_vault ''doc.md''))
       = ''_assets.doc''
   \<and> process ''_assets.{{constructor}}'' (fst (getContext vault_host root_vault ''doc.md''))
       = ''_assets.function Object() { [native code] }''
   \<and> process ''{{toString}}'' (\<lambda>name. None) = ''function toString() { [native code] }''
   \<and> process ''{{__proto__}}'' (\<lambda>name. None) = ''[object Object]''
   \<and> process ''{{nothing}}'' (\<lambda>name. None) = ''{{nothing}}''"
  by code_simp

section \<open>Maps in insertion order\<close>

lemma map_of_map_set: "map_of (map_set k v es) = (map_of es)(k \<mapsto> v)"
  by (induction es) (auto simp: fun_eq_iff)

lemma map_of_map_delete: "map_of (map_delete k es) = (map_of es)(k := None)"
  by (induction es) (auto simp: map_delete_def fun_eq_iff)


section \<open>Removing an image\<close>




section \<open>The reference to an image\<close>

lemma getMarkdownReference_unknown:
  "\<not> map_has (images m) lp \<Longrightarrow> getMarkdownReference m lp = []"
  by (simp add: getMarkdownReference_def map_has_def)

lemma getMarkdownReference_uploaded:
  "map_of (images m) lp = Some info \<Longrightarrow> isUploaded info \<Longrightarrow> remotePath info \<noteq> [] \<Longrightarrow>
   getMarkdownReference m lp =
     ''!['' @ substring (basename lp) 0 (lastIndexOf (basename lp) CHR ''.'') @ '']('' @ remotePath info @ '')''"
  by (simp add: getMarkdownReference_def Let_def)

text \<open>
  C9, at a document in the root of the vault with the default settings. The directory of
  \<^verbatim>\<open>doc.md\<close> is \<^verbatim>\<open>.\<close>, and \<^verbatim>\<open>getRelativePath\<close> removes the first occurrence of it from the
  image path: the dot of \<^verbatim>\<open>_assets.doc\<close>. Adding \<^verbatim>\<open>tmp/img.png\<close> stores the image at
  \<^verbatim>\<open>_assets.doc/img.png\<close>, yet both the text \<^verbatim>\<open>addImage\<close> returns and the reference
  \<^verbatim>\<open>getMarkdownReference\<close> builds point to \<^verbatim>\<open>_assetsdoc/img.png\<close>, which resolved against the
  document's directory is not the image's path.
\<close>

theorem getMarkdownReference_root_document:
  "addImage vault_host root_manager root_vault ''tmp/img.png''
     = (Some ''_assetsdoc/img.png'',
        root_manager\<lparr>images := [(''_assets.doc/img.png'',
           (createImageInfo 1700000000000 ''_assets.doc/img.png'' [] False)
             \<lparr>originalName := Some ''img.png'', size_bytes := Some 3\<rparr>)]\<rparr>,
        snd (snd (addImage vault_host root_manager root_vault ''tmp/img.png'')))
   \<and> getMarkdownReference
         (fst (snd (addImage vault_host root_manager root_vault ''tmp/img.png'')))
         ''_assets.doc/img.png''
       = ''![img](_assetsdoc/img.png)''
   \<and> normalizePath (join (dirname ''doc.md'') ''_assetsdoc/img.png'') = ''_assetsdoc/img.png''
   \<and> normalizePath (join (dirname ''doc.md'') ''_assets.doc/img.png'') = ''_assets.doc/img.png''"
  by code_simp

lemma getMarkdownReference_uploaded_scenario:
  "getMarkdownReference
     (notes_manager\<lparr>images := [(''notes/_assets.a/y.png'',
        createImageInfo 1700000000000 ''notes/_assets.a/y.png'' ''https://x/y.png'' True)]\<rparr>)
     ''notes/_assets.a/y.png'' = ''![y](https://x/y.png)''"
  by code_simp

lemma new_root_manager: "new_DocumentImageManager vault_host (DEFAULT_SETTINGS\<lparr>isAutoUpload := False\<rparr>) ''doc.md'' root_vault = (root_manager, root_vault)"
  by code_simp

section \<open>Renaming\<close>

lemma renameImageFolder_empty:
  "images m = [] \<Longrightarrow> renameImageFolder h m w newMdPath = (Returns True, m, w)"
  by (simp add: renameImageFolder_def)

lemma renameImageFolder_false_restores:
  assumes "renameImageFolder h m w newMdPath = (Returns False, m', w')"
  shows "mdPath m' = mdPath m \<and> imageFolderPath m' = imageFolderPath m"
  using assms
  by (auto simp: renameImageFolder_def Let_def
      split: if_splits option.splits prod.splits outcome.splits)

text \<open>
  C8, for distinct paths. \<^verbatim>\<open>renameManager\<close> answers false and leaves the cache as it is
  when no manager is cached under the old path. Otherwise it ends as the manager's
  \<^verbatim>\<open>renameImageFolder\<close> ends, in the world that call leaves. When that call returns true
  and the two paths differ, the manager is cached under the new path and no longer under
  the old one, the other entries untouched. When it does not return true the manager
  stays under the old path, and when it returns false the manager's \<^verbatim>\<open>mdPath\<close> and
  \<^verbatim>\<open>imageFolderPath\<close> are the ones it had before the call.
\<close>

theorem renameManager_outcomes:
  "(map_of (managers f) oldPath = None \<longrightarrow>
      renameManager h f w oldPath newPath = (Returns False, f, w))
   \<and> (map_of (managers f) oldPath = Some m
        \<and> renameImageFolder h m w newPath = (r, m', w')
        \<and> renameManager h f w oldPath newPath = (r2, f', w2) \<longrightarrow>
        r2 = r \<and> w2 = w'
        \<and> (r = Returns True \<and> oldPath \<noteq> newPath \<longrightarrow>
             map_of (managers f') newPath = Some m' \<and> map_of (managers f') oldPath = None
             \<and> (\<forall>k. k \<noteq> oldPath \<and> k \<noteq> newPath \<longrightarrow>
                    map_of (managers f') k = map_of (managers f) k))
        \<and> (r \<noteq> Returns True \<longrightarrow>
             map_of (managers f') oldPath = Some m'
             \<and> (\<forall>k. k \<noteq> oldPath \<longrightarrow> map_of (managers f') k = map_of (managers f) k))
        \<and> (r = Returns False \<longrightarrow>
             mdPath m' = mdPath m \<and> imageFolderPath m' = imageFolderPath m))"
proof (intro conjI impI)
  assume "map_of (managers f) oldPath = None"
  then show "renameManager h f w oldPath newPath = (Returns False, f, w)"
    by (simp add: renameManager_def)
next
  assume a: "map_of (managers f) oldPath = Some m
        \<and> renameImageFolder h m w newPath = (r, m', w')
        \<and> renameManager h f w oldPath newPath = (r2, f', w2)"
  then have rm: "renameManager h f w oldPath newPath =
      (case r of
         Returns success \<Rightarrow>
           if success
           then (Returns True,
                 f\<lparr>managers := map_delete oldPath (map_set newPath m' (map_set oldPath m' (managers f)))\<rparr>, w')
           else (Returns False, f\<lparr>managers := map_set oldPath m' (managers f)\<rparr>, w')
       | _ \<Rightarrow> (r, f\<lparr>managers := map_set oldPath m' (managers f)\<rparr>, w'))"
    by (simp add: renameManager_def Let_def split: outcome.splits)
  from a rm show "r2 = r" by (auto split: outcome.splits if_splits)
  from a rm show "w2 = w'" by (auto split: outcome.splits if_splits)
  {
    assume "r = Returns True \<and> oldPath \<noteq> newPath"
    with a rm have f': "managers f' = map_delete oldPath (map_set newPath m' (map_set oldPath m' (managers f)))"
      and ne: "oldPath \<noteq> newPath"
      by auto
    from f' ne show "map_of (managers f') newPath = Some m'"
      by (simp add: map_of_map_delete map_of_map_set)
    from f' show "map_of (managers f') oldPath = None"
      by (simp add: map_of_map_delete)
    from f' show "\<forall>k. k \<noteq> oldPath \<and> k \<noteq> newPath \<longrightarrow>
                    map_of (managers f') k = map_of (managers f) k"
      by (simp add: map_of_map_delete map_of_map_set)
  }
  {
    assume "r \<noteq> Returns True"
    with a rm have f': "managers f' = map_set oldPath m' (managers f)"
      by (auto split: outcome.splits if_splits)
    from f' show "map_of (managers f') oldPath = Some m'"
      by (simp add: map_of_map_set)
    from f' show "\<forall>k. k \<noteq> oldPath \<longrightarrow> map_of (managers f') k = map_of (managers f) k"
      by (simp add: map_of_map_set)
  }
  {
    assume "r = Returns False"
    with a show "mdPath m' = mdPath m" "imageFolderPath m' = imageFolderPath m"
      using renameImageFolder_false_restores [of h m w newPath m' w'] by simp_all
  }
qed

text \<open>
  For equal paths the claim fails: the manager is set under the new path and the old
  path, the same key, is then deleted, so a successful rename to the same path leaves
  no entry for the manager.
\<close>

theorem renameManager_same_path_drops_manager:
  "map_of (managers notes_factory) ''notes/a.md'' = Some notes_manager
   \<and> renameImageFolder vault_host notes_manager locked_vault ''notes/a.md''
       = (Returns True, notes_manager, locked_vault)
   \<and> renameManager vault_host notes_factory locked_vault ''notes/a.md'' ''notes/a.md''
       = (Returns True, notes_factory\<lparr>managers := []\<rparr>, locked_vault)
   \<and> map_of (managers (fst (snd (renameManager vault_host notes_factory locked_vault
          ''notes/a.md'' ''notes/a.md'')))) ''notes/a.md'' = None"
  by code_simp

lemma rename_scenario:
  "renameImageFolder vault_host notes_manager renamed_vault ''notes/b.md''
   = (Returns True,
      notes_manager\<lparr>mdPath := ''notes/b.md'', imageFolderPath := ''notes/_assets.b'',
        images := [(''notes/_assets.b/img.png'',
                   createImageInfo 1700000000000 ''notes/_assets.b/img.png'' [] False)]\<rparr>,
      snd (snd (renameImageFolder vault_host notes_manager renamed_vault ''notes/b.md'')))
   \<and> map fst (files (snd (snd (renameImageFolder vault_host notes_manager renamed_vault ''notes/b.md''))))
      = [''notes/b.md'', ''notes/_assets.b/img.png'', ''notes/_assets.b/b.json'']
   \<and> folders (snd (snd (renameImageFolder vault_host notes_manager renamed_vault ''notes/b.md'')))
      = [''notes/_assets.b'']"
  by code_simp

lemma rename_fails_scenario:
  "renameImageFolder vault_host notes_manager (renamed_vault\<lparr>locked := [''notes/_assets.a'']\<rparr>) ''notes/b.md''
   = (Returns False,
      notes_manager\<lparr>images := [(''notes/_assets.b/img.png'',
                   createImageInfo 1700000000000 ''notes/_assets.b/img.png'' [] False)]\<rparr>,
      snd (snd (renameImageFolder vault_host notes_manager (renamed_vault\<lparr>locked := [''notes/_assets.a'']\<rparr>) ''notes/b.md'')))"
  by code_simp

theorem renameManager_outcomes_witness:
  "map_of (managers notes_factory) ''notes/c.md'' = None
   \<and> renameManager vault_host notes_factory renamed_vault ''notes/c.md'' ''notes/b.md''
       = (Returns False, notes_factory, renamed_vault)
   \<and> map_of (managers notes_factory) ''notes/a.md'' = Some notes_manager
   \<and> fst (renameImageFolder vault_host notes_manager renamed_vault ''notes/b.md'') = Returns True
   \<and> ''notes/a.md'' \<noteq> ''notes/b.md''
   \<and> fst (renameManager vault_host notes_factory renamed_vault ''notes/a.md'' ''notes/b.md'') = Returns True
   \<and> map_of (managers (fst (snd (renameManager vault_host notes_factory renamed_vault
         ''notes/a.md'' ''notes/b.md'')))) ''notes/b.md''
       = Some (fst (snd (renameImageFolder vault_host notes_manager renamed_vault ''notes/b.md'')))
   \<and> map_of (managers (fst (snd (renameManager vault_host notes_factory renamed_vault
         ''notes/a.md'' ''notes/b.md'')))) ''notes/a.md'' = None
   \<and> fst (renameImageFolder vault_host notes_manager
         (renamed_vault\<lparr>locked := [''notes/_assets.a'']\<rparr>) ''notes/b.md'') = Returns False
   \<and> fst (renameManager vault_host notes_factory
         (renamed_vault\<lparr>locked := [''notes/_assets.a'']\<rparr>) ''notes/a.md'' ''notes/b.md'') = Returns False
   \<and> map_option mdPath (map_of (managers (fst (snd (renameManager vault_host notes_factory
         (renamed_vault\<lparr>locked := [''notes/_assets.a'']\<rparr>) ''notes/a.md'' ''notes/b.md'')))) ''notes/a.md'')
       = Some (mdPath notes_manager)
   \<and> map_option imageFolderPath (map_of (managers (fst (snd (renameManager vault_host notes_factory
         (renamed_vault\<lparr>locked := [''notes/_assets.a'']\<rparr>) ''notes/a.md'' ''notes/b.md'')))) ''notes/a.md'')
       = Some (imageFolderPath notes_manager)"
proof -
  let ?w = "renamed_vault"
  let ?wl = "renamed_vault\<lparr>locked := [''notes/_assets.a'']\<rparr>"
  let ?R = "renameImageFolder vault_host notes_manager ?w ''notes/b.md''"
  let ?RL = "renameImageFolder vault_host notes_manager ?wl ''notes/b.md''"
  let ?M = "renameManager vault_host notes_factory ?w ''notes/a.md'' ''notes/b.md''"
  let ?MF = "renameManager vault_host notes_factory ?wl ''notes/a.md'' ''notes/b.md''"
  have none: "map_of (managers notes_factory) ''notes/c.md'' = None"
    and some: "map_of (managers notes_factory) ''notes/a.md'' = Some notes_manager"
    by code_simp+
  have r: "fst ?R = Returns True" and rl: "fst ?RL = Returns False"
    by code_simp+
  have ne: "''notes/a.md'' \<noteq> ''notes/b.md''" by simp
  have p: "?R = (fst ?R, fst (snd ?R), snd (snd ?R))" "?RL = (fst ?RL, fst (snd ?RL), snd (snd ?RL))"
    "?M = (fst ?M, fst (snd ?M), snd (snd ?M))" "?MF = (fst ?MF, fst (snd ?MF), snd (snd ?MF))"
    by simp_all
  note t0 = renameManager_outcomes [where f = notes_factory and oldPath = "''notes/c.md''"
      and h = vault_host and w = ?w and newPath = "''notes/b.md''"]
  note t1 = renameManager_outcomes [where f = notes_factory and oldPath = "''notes/a.md''"
      and m = notes_manager and h = vault_host and w = ?w and newPath = "''notes/b.md''"
      and r = "fst ?R" and m' = "fst (snd ?R)" and w' = "snd (snd ?R)"
      and ?r2.0 = "fst ?M" and f' = "fst (snd ?M)" and ?w2.0 = "snd (snd ?M)"]
  note t2 = renameManager_outcomes [where f = notes_factory and oldPath = "''notes/a.md''"
      and m = notes_manager and h = vault_host and w = ?wl and newPath = "''notes/b.md''"
      and r = "fst ?RL" and m' = "fst (snd ?RL)" and w' = "snd (snd ?RL)"
      and ?r2.0 = "fst ?MF" and f' = "fst (snd ?MF)" and ?w2.0 = "snd (snd ?MF)"]
  from t0 none have c0: "renameManager vault_host notes_factory ?w ''notes/c.md'' ''notes/b.md''
       = (Returns False, notes_factory, ?w)" by blast
  from t1 some r ne p(1,3) have c1: "fst ?M = Returns True"
    "map_of (managers (fst (snd ?M))) ''notes/b.md'' = Some (fst (snd ?R))"
    "map_of (managers (fst (snd ?M))) ''notes/a.md'' = None"
    by metis+
  from t2 some rl p(2,4) have c2: "fst ?MF = Returns False"
    "map_of (managers (fst (snd ?MF))) ''notes/a.md'' = Some (fst (snd ?RL))"
    "mdPath (fst (snd ?RL)) = mdPath notes_manager"
    "imageFolderPath (fst (snd ?RL)) = imageFolderPath notes_manager"
    by (metis outcome.inject outcome.distinct)+
  show ?thesis
    using none some r rl c0 c1 c2 by simp
qed

text \<open>
  C10, for distinct paths. On a manager without images \<^verbatim>\<open>renameImageFolder\<close> returns
  true and changes neither the manager nor the world, so \<^verbatim>\<open>mdPath\<close> and
  \<^verbatim>\<open>imageFolderPath\<close> stay as they were. \<^verbatim>\<open>renameManager\<close> to a different path then
  caches that very manager under the new path and drops the old key: a manager whose
  \<^verbatim>\<open>mdPath\<close> was the old path is cached under the new path with \<^verbatim>\<open>mdPath\<close> still the old one.
\<close>

theorem renameImageFolder_empty_keeps_paths:
  "(images m = [] \<longrightarrow> renameImageFolder h m w newPath = (Returns True, m, w))
   \<and> (images m = [] \<and> map_of (managers f) oldPath = Some m \<and> oldPath \<noteq> newPath \<longrightarrow>
        (\<exists>f'. renameManager h f w oldPath newPath = (Returns True, f', w)
              \<and> map_of (managers f') newPath = Some m
              \<and> map_of (managers f') oldPath = None
              \<and> (mdPath m = oldPath \<longrightarrow>
                   map_option mdPath (map_of (managers f') newPath) = Some oldPath)))"
  by (auto simp: renameImageFolder_def renameManager_def map_of_map_delete map_of_map_set)

text \<open>
  For equal paths the consequence fails as it does for any successful rename: the cache
  is left without an entry for the path.
\<close>

theorem renameManager_empty_same_path:
  "images empty_manager = []
   \<and> map_of (managers empty_factory) ''notes/b.md'' = Some empty_manager
   \<and> renameImageFolder vault_host empty_manager empty_vault ''notes/b.md''
       = (Returns True, empty_manager, empty_vault)
   \<and> fst (renameManager vault_host empty_factory empty_vault ''notes/b.md'' ''notes/b.md'') = Returns True
   \<and> map_of (managers (fst (snd (renameManager vault_host empty_factory empty_vault
         ''notes/b.md'' ''notes/b.md'')))) ''notes/b.md'' = None"
  by code_simp

theorem renameImageFolder_empty_keeps_paths_witness:
  "images empty_manager = []
   \<and> map_of (managers empty_factory) ''notes/b.md'' = Some empty_manager
   \<and> mdPath empty_manager = ''notes/b.md''
   \<and> ''notes/b.md'' \<noteq> ''notes/c.md''
   \<and> renameImageFolder vault_host empty_manager empty_vault ''notes/c.md''
       = (Returns True, empty_manager, empty_vault)
   \<and> fst (renameManager vault_host empty_factory empty_vault ''notes/b.md'' ''notes/c.md'') = Returns True
   \<and> map_option mdPath (map_of (managers (fst (snd (renameManager vault_host empty_factory
         empty_vault ''notes/b.md'' ''notes/c.md'')))) ''notes/c.md'') = Some ''notes/b.md''
   \<and> map_of (managers (fst (snd (renameManager vault_host empty_factory
         empty_vault ''notes/b.md'' ''notes/c.md'')))) ''notes/b.md'' = None"
proof -
  have a: "images empty_manager = []"
    "map_of (managers empty_factory) ''notes/b.md'' = Some empty_manager"
    "mdPath empty_manager = ''notes/b.md''"
    by code_simp+
  have ne: "''notes/b.md'' \<noteq> ''notes/c.md''" by simp
  note t = renameImageFolder_empty_keeps_paths [where m = empty_manager and h = vault_host
      and w = empty_vault and newPath = "''notes/c.md''" and f = empty_factory
      and oldPath = "''notes/b.md''"]
  from t a(1) have r: "renameImageFolder vault_host empty_manager empty_vault ''notes/c.md''
       = (Returns True, empty_manager, empty_vault)" by blast
  from t a ne obtain f' where
    f': "renameManager vault_host empty_factory empty_vault ''notes/b.md'' ''notes/c.md''
         = (Returns True, f', empty_vault)"
    "map_of (managers f') ''notes/b.md'' = None"
    "map_option mdPath (map_of (managers f') ''notes/c.md'') = Some ''notes/b.md''"
    by blast
  show ?thesis using a ne r f' by simp
qed

section \<open>Uploading all images\<close>

lemma map_fst_map_set: "map_of es k \<noteq> None \<Longrightarrow> map fst (map_set k v es) = map fst es"
  by (induction es) (auto split: if_splits)

lemma guarded_log:
  assumes "observes_uploads h log"
  shows "ensure_folder h w p = Some w' \<Longrightarrow> log w' = log w"
    and "remove_if_exists h w p = Some w' \<Longrightarrow> log w' = log w"
    and "rmdir_if_exists h w p = Some w' \<Longrightarrow> log w' = log w"
  using assms
  by (auto simp: observes_uploads_def ensure_folder_def remove_if_exists_def rmdir_if_exists_def
      split: if_splits)

lemma saveToJson_log:
  assumes "observes_uploads h log" "saveToJson h m w = (b, w')"
  shows "log w' = log w"
proof -
  from assms(1) have wr: "\<And>w p c w'. adapter_write h w p c = Some w' \<Longrightarrow> log w' = log w"
    unfolding observes_uploads_def by blast
  note g = guarded_log [OF assms(1)]
  have "w' = w
        \<or> (\<exists>w1. remove_if_exists h w (getJsonPath m (imageFolderPath m)) = Some w1
                 \<and> (w' = w1 \<or> rmdir_if_exists h w1 (imageFolderPath m) = Some w'))
        \<or> (\<exists>w1. ensure_folder h w (imageFolderPath m) = Some w1
                 \<and> (w' = w1 \<or> (\<exists>c. adapter_write h w1 (getJsonPath m (imageFolderPath m)) c = Some w')))"
    using assms(2)
    by (cases "images m = []") (auto simp: saveToJson_def Let_def split: option.splits)
  then show ?thesis
    using g wr by metis
qed

lemma split_where_nonempty: "split_where P r \<noteq> []"
  by (induction r) (auto split: list.splits)

lemma split_on_nonempty: "split_on c r \<noteq> []"
  by (simp add: split_on_def split_where_nonempty)

text \<open>What an upload of a record that is not yet uploaded does.\<close>

lemma uploadImage_pending:
  assumes "map_of (images m) p = Some info" "\<not> isUploaded info"
    "uploadImage h m w p = (s, m1, w1)"
  obtains (rejected) wu where "uploader_upload h w p = (None, wu)" "m1 = m" "w1 = wu" "\<not> s"
  | (resolved) result wu info' b w2 where "uploader_upload h w p = (Some result, wu)"
      "info' = info\<lparr>remotePath := hd (split_on CHR '','' result), isUploaded := True,
                        modifyTime := Some (date_now h wu)\<rparr>"
      "m1 = m\<lparr>images := map_set p info' (images m)\<rparr>"
      "saveToJson h m1 wu = (b, w2)"
      "w1 = w2 \<or> adapter_remove h w2 p = Some w1"
proof (cases "uploader_upload h w p")
  case (Pair res wu)
  show ?thesis
  proof (cases res)
    case None
    with Pair assms show ?thesis by (intro rejected [of wu]) (auto simp: uploadImage_def)
  next
    case (Some result)
    obtain url rest where sp: "split_on CHR '','' result = url # rest"
      using split_on_nonempty [of "CHR '',''" result] by (cases "split_on CHR '','' result") auto
    define info' where "info' = info\<lparr>remotePath := url, isUploaded := True,
                        modifyTime := Some (date_now h wu)\<rparr>"
    define m' where "m' = m\<lparr>images := map_set p info' (images m)\<rparr>"
    obtain b w2 where sv: "saveToJson h m' wu = (b, w2)" by (cases "saveToJson h m' wu")
    have u: "uploadImage h m w p =
        (if isDeleteTemp (settings m') \<and> adapter_exists h w2 p then
           (case adapter_remove h w2 p of None \<Rightarrow> (False, m', w2) | Some w3 \<Rightarrow> (True, m', w3))
         else (True, m', w2))"
      unfolding m'_def info'_def
      using assms(1,2) Pair Some sp sv [unfolded m'_def info'_def]
      by (simp add: uploadImage_def Let_def)
    have m1: "m1 = m'" and w1: "w1 = w2 \<or> adapter_remove h w2 p = Some w1"
      using u assms(3) by (auto split: if_splits option.splits)
    show ?thesis
      by (rule resolved [of result wu info' b w2])
        (use Pair Some sp sv m1 w1 in \<open>simp_all add: info'_def m'_def\<close>)
  qed
qed

lemma uploadImage_not_pending:
  assumes "\<not> pending_key m p"
  shows "uploadImage h m w p = (map_of (images m) p \<noteq> None, m, w)"
  using assms by (auto simp: uploadImage_def pending_key_def split: option.splits)

lemma uploadImage_frame:
  assumes "uploadImage h m w p = (s, m1, w1)"
  shows "map fst (images m1) = map fst (images m)
         \<and> (\<forall>k. k \<noteq> p \<longrightarrow> map_of (images m1) k = map_of (images m) k)"
proof (cases "pending_key m p")
  case False
  with assms uploadImage_not_pending [OF False, of h w] show ?thesis by simp
next
  case True
  then obtain info where i: "map_of (images m) p = Some info" "\<not> isUploaded info"
    by (auto simp: pending_key_def split: option.splits)
  from i assms show ?thesis
    by (cases rule: uploadImage_pending) (use i in \<open>auto simp: map_of_map_set map_fst_map_set\<close>)
qed

lemma uploadImage_log:
  assumes "observes_uploads h log" "pending_key m p" "uploadImage h m w p = (s, m1, w1)"
  shows "log w1 = log w @ [p]"
proof -
  from assms(1) have
    up: "\<And>w p. log (snd (uploader_upload h w p)) = log w @ [p]" and
    rm: "\<And>w p w'. adapter_remove h w p = Some w' \<Longrightarrow> log w' = log w"
    unfolding observes_uploads_def by blast+
  obtain info where i: "map_of (images m) p = Some info" "\<not> isUploaded info"
    using assms(2) by (auto simp: pending_key_def split: option.splits)
  from i assms(3) show ?thesis
  proof (cases rule: uploadImage_pending)
    case (rejected wu)
    then show ?thesis using up [of w p] by simp
  next
    case (resolved result wu info' b w2)
    from resolved(1) have "log wu = log w @ [p]" using up [of w p] by simp
    moreover have "log w2 = log wu" using saveToJson_log [OF assms(1) resolved(4)] .
    moreover have "log w1 = log w2" using resolved(5) rm by auto
    ultimately show ?thesis by simp
  qed
qed

lemma uploadAll_loop_char:
  assumes "observes_uploads h log" "distinct ks"
  shows "\<exists>outs m' w'.
           upload_each h (filter (pending_key m) ks) m w = (outs, m', w')
           \<and> uploadAll_loop h ks ok m w = (ok \<and> list_all (\<lambda>b. b) outs, m', w')
           \<and> length outs = length (filter (pending_key m) ks)
           \<and> log w' = log w @ filter (pending_key m) ks"
  using assms(2)
proof (induction ks arbitrary: ok m w)
  case Nil
  then show ?case by simp
next
  case (Cons k ks)
  show ?case
  proof (cases "pending_key m k")
    case False
    then have "uploadAll_loop h (k # ks) ok m w = uploadAll_loop h ks ok m w"
      by (auto simp: pending_key_def split: option.splits)
    with False Cons show ?thesis by simp
  next
    case True
    obtain s m1 w1 where u: "uploadImage h m w k = (s, m1, w1)"
      by (cases "uploadImage h m w k") auto
    from uploadImage_frame [OF u] have fr: "\<forall>k'. k' \<noteq> k \<longrightarrow> map_of (images m1) k' = map_of (images m) k'"
      by simp
    from Cons.prems have "k \<notin> set ks" "distinct ks" by simp_all
    then have same: "filter (pending_key m1) ks = filter (pending_key m) ks"
      using fr by (intro filter_cong) (auto simp: pending_key_def)
    from Cons.IH [OF \<open>distinct ks\<close>, of m1 w1 "ok \<and> s"] obtain outs m' w' where
      ih: "upload_each h (filter (pending_key m1) ks) m1 w1 = (outs, m', w')"
        "uploadAll_loop h ks (ok \<and> s) m1 w1 = ((ok \<and> s) \<and> list_all (\<lambda>b. b) outs, m', w')"
        "length outs = length (filter (pending_key m1) ks)"
        "log w' = log w1 @ filter (pending_key m1) ks"
      by blast
    have l1: "log w1 = log w @ [k]" by (rule uploadImage_log [OF assms(1) True u])
    have loop: "uploadAll_loop h (k # ks) ok m w = uploadAll_loop h ks (ok \<and> s) m1 w1"
      using True u by (auto simp: pending_key_def split: option.splits)
    show ?thesis
      using True u ih l1 loop same by auto
  qed
qed

lemma pending_filter:
  "distinct (map fst (images m)) \<Longrightarrow> filter (pending_key m) (map fst (images m)) = pending m"
proof -
  assume d: "distinct (map fst (images m))"
  have "\<forall>e \<in> set (images m). pending_key m (fst e) = (\<not> isUploaded (snd e))"
  proof
    fix e assume "e \<in> set (images m)"
    then have "map_of (images m) (fst e) = Some (snd e)"
      using d by (simp add: map_of_eq_Some_iff)
    then show "pending_key m (fst e) = (\<not> isUploaded (snd e))"
      by (simp add: pending_key_def)
  qed
  then show ?thesis
    unfolding pending_def filter_map o_def by (metis (mono_tags, lifting) filter_cong)
qed

text \<open>
  C6. Let the paths handed to the upload collaborator be observable, and the keys of the
  map be distinct, as the keys of a map are. Then \<^verbatim>\<open>uploadAllImages\<close> does what uploading
  each record that is not uploaded does, one after the other in the order of the map and
  whatever the outcome of the ones before: the collaborator is handed exactly the keys of
  those records, there is one outcome for each of them, and the result is true if and
  only if every outcome is.
\<close>

theorem uploadAllImages_attempts_pending:
  assumes "observes_uploads h log" "distinct (map fst (images m))"
  shows "\<exists>outcomes m' w'.
           upload_each h (pending m) m w = (outcomes, m', w')
           \<and> uploadAllImages h m w = (list_all (\<lambda>b. b) outcomes, m', w')
           \<and> length outcomes = length (pending m)
           \<and> log w' = log w @ pending m"
  using uploadAll_loop_char [OF assms(1) assms(2), of m w True] pending_filter [OF assms(2)]
  by (simp add: uploadAllImages_def)

lemma vault_observes_uploads: "observes_uploads vault_host uploads"
  by (auto simp: observes_uploads_def vault_host_def v_upload_def v_write_def v_mkdir_def
      v_remove_def v_rmdir_def split: if_splits)

theorem uploadAllImages_attempts_pending_witness:
  "distinct (map fst (images five_manager))
   \<and> pending five_manager = [''notes/_assets.a/2.png'', ''notes/_assets.a/4.png'']
   \<and> uploads five_vault = []
   \<and> fst (upload_each vault_host (pending five_manager) five_manager five_vault) = [False, True]
   \<and> fst (uploadAllImages vault_host five_manager five_vault) = False
   \<and> uploads (snd (snd (uploadAllImages vault_host five_manager five_vault)))
       = [''notes/_assets.a/2.png'', ''notes/_assets.a/4.png'']"
proof -
  have d: "distinct (map fst (images five_manager))" by code_simp
  have p: "pending five_manager = [''notes/_assets.a/2.png'', ''notes/_assets.a/4.png'']"
    by code_simp
  have u: "uploads five_vault = []" by code_simp
  have e: "fst (upload_each vault_host (pending five_manager) five_manager five_vault) = [False, True]"
    by code_simp
  from uploadAllImages_attempts_pending [OF vault_observes_uploads d, of five_vault]
  obtain outcomes m' w' where
    o: "upload_each vault_host (pending five_manager) five_manager five_vault = (outcomes, m', w')"
      "uploadAllImages vault_host five_manager five_vault = (list_all (\<lambda>b. b) outcomes, m', w')"
      "uploads w' = uploads five_vault @ pending five_manager"
    by blast
  from o(1) e have "outcomes = [False, True]" by simp
  with o(2,3) d p u e show ?thesis by simp
qed

section \<open>The sidecar, the folder and the map\<close>

lemma guarded_exists:
  assumes "vault_laws h"
  shows "remove_if_exists h w p = Some w' \<Longrightarrow>
           \<not> adapter_exists h w' p \<and> (\<forall>q. adapter_exists h w' q \<longrightarrow> adapter_exists h w q)"
    and "rmdir_if_exists h w p = Some w' \<Longrightarrow>
           \<not> adapter_exists h w' p \<and> (\<forall>q. adapter_exists h w' q \<longrightarrow> adapter_exists h w q)"
    and "ensure_folder h w p = Some w' \<Longrightarrow>
           adapter_exists h w' p \<and> (\<forall>q. adapter_exists h w q \<longrightarrow> adapter_exists h w' q)"
proof -
  from assms have
    rm: "\<And>w p w'. adapter_remove h w p = Some w' \<Longrightarrow>
          \<not> adapter_exists h w' p \<and> (\<forall>q. adapter_exists h w' q \<longrightarrow> adapter_exists h w q)" and
    rd: "\<And>w p w'. adapter_rmdir h w p = Some w' \<Longrightarrow>
          \<not> adapter_exists h w' p \<and> (\<forall>q. adapter_exists h w' q \<longrightarrow> adapter_exists h w q)" and
    mk: "\<And>w p w'. adapter_mkdir h w p = Some w' \<Longrightarrow>
          adapter_exists h w' p \<and> (\<forall>q. adapter_exists h w q \<longrightarrow> adapter_exists h w' q)"
    unfolding vault_laws_def by blast+
  show "remove_if_exists h w p = Some w' \<Longrightarrow>
           \<not> adapter_exists h w' p \<and> (\<forall>q. adapter_exists h w' q \<longrightarrow> adapter_exists h w q)"
    using rm [of w p w'] by (auto simp: remove_if_exists_def split: if_splits)
  show "rmdir_if_exists h w p = Some w' \<Longrightarrow>
           \<not> adapter_exists h w' p \<and> (\<forall>q. adapter_exists h w' q \<longrightarrow> adapter_exists h w q)"
    using rd [of w p w'] by (auto simp: rmdir_if_exists_def split: if_splits)
  show "ensure_folder h w p = Some w' \<Longrightarrow>
           adapter_exists h w' p \<and> (\<forall>q. adapter_exists h w q \<longrightarrow> adapter_exists h w' q)"
    using mk [of w p w'] by (auto simp: ensure_folder_def split: if_splits)
qed

lemma saveToJson_empty_success:
  assumes "images m = []" "saveToJson h m w = (True, w')"
  obtains w1 where "remove_if_exists h w (getJsonPath m (imageFolderPath m)) = Some w1"
    "rmdir_if_exists h w1 (imageFolderPath m) = Some w'"
  using assms by (auto simp: saveToJson_def split: option.splits)

lemma saveToJson_nonempty_success:
  assumes "images m \<noteq> []" "saveToJson h m w = (True, w')"
  obtains w1 where "ensure_folder h w (imageFolderPath m) = Some w1"
    "adapter_write h w1 (getJsonPath m (imageFolderPath m))
       (JSON_stringify h (JDocument (mdPath m) (Object_fromEntries (images m)))) = Some w'"
  using assms by (auto simp: saveToJson_def Let_def split: option.splits)

lemma saveToJson_exists:
  assumes "vault_laws h" "saveToJson h m w = (True, w')"
  shows "(images m = [] \<longrightarrow>
            \<not> adapter_exists h w' (getJsonPath m (imageFolderPath m))
            \<and> \<not> adapter_exists h w' (imageFolderPath m))
         \<and> (images m \<noteq> [] \<longrightarrow>
            adapter_exists h w' (getJsonPath m (imageFolderPath m))
            \<and> adapter_exists h w' (imageFolderPath m))"
proof (cases "images m = []")
  case True
  from True assms(2) obtain w1 where
    a: "remove_if_exists h w (getJsonPath m (imageFolderPath m)) = Some w1"
       "rmdir_if_exists h w1 (imageFolderPath m) = Some w'"
    by (rule saveToJson_empty_success)
  from guarded_exists(1) [OF assms(1) a(1)] guarded_exists(2) [OF assms(1) a(2)] True
  show ?thesis by blast
next
  case False
  from False assms(2) obtain w1 where
    a: "ensure_folder h w (imageFolderPath m) = Some w1"
       "adapter_write h w1 (getJsonPath m (imageFolderPath m))
          (JSON_stringify h (JDocument (mdPath m) (Object_fromEntries (images m)))) = Some w'"
    by (rule saveToJson_nonempty_success)
  from assms(1) a(2) have
    "adapter_exists h w' (getJsonPath m (imageFolderPath m))
     \<and> (\<forall>q. adapter_exists h w1 q \<longrightarrow> adapter_exists h w' q)"
    unfolding vault_laws_def by blast
  with guarded_exists(3) [OF assms(1) a(1)] False show ?thesis by blast
qed

lemma map_set_nonempty: "map_set k v es \<noteq> []"
  by (cases es) auto

text \<open>
  C2. In a vault that keeps these laws, after \<^verbatim>\<open>saveToJson\<close> has returned success neither
  the sidecar nor the asset folder exists when the map is empty, and both exist when it
  is not. Removing the only record runs that step on the empty map: when it succeeds
  both are gone. Adding a record to an empty manager runs it on a map of one record,
  right after the copy: when it succeeds both exist in the world it leaves, which is
  the world \<^verbatim>\<open>addImage\<close> ends in when automatic upload is off.
\<close>

theorem sidecar_and_folder_follow_map:
  assumes "vault_laws h"
  shows "(saveToJson h m w = (True, w') \<longrightarrow>
            (images m = [] \<longrightarrow>
               \<not> adapter_exists h w' (getJsonPath m (imageFolderPath m))
               \<and> \<not> adapter_exists h w' (imageFolderPath m))
            \<and> (images m \<noteq> [] \<longrightarrow>
               adapter_exists h w' (getJsonPath m (imageFolderPath m))
               \<and> adapter_exists h w' (imageFolderPath m)))
         \<and> (map_has (images m) lp \<and> map_delete lp (images m) = []
            \<and> remove_if_exists h w lp = Some w1
            \<and> saveToJson h (m\<lparr>images := []\<rparr>) w1 = (True, w2) \<longrightarrow>
            removeImage h m w lp = (True, m\<lparr>images := []\<rparr>, w2)
            \<and> \<not> adapter_exists h w2 (getJsonPath m (imageFolderPath m))
            \<and> \<not> adapter_exists h w2 (imageFolderPath m))
         \<and> (images m = []
            \<and> copyImageToFolder h m w sourcePath = (Some targetPath, w3)
            \<and> saveToJson h
                 (m\<lparr>images := [(targetPath, new_image_info h w3 sourcePath targetPath)]\<rparr>) w3
                = (True, w4) \<longrightarrow>
            adapter_exists h w4 (getJsonPath m (imageFolderPath m))
            \<and> adapter_exists h w4 (imageFolderPath m)
            \<and> (\<not> isAutoUpload (settings m) \<longrightarrow>
                 addImage h m w sourcePath =
                   (Some (getRelativePath m targetPath),
                    m\<lparr>images := [(targetPath, new_image_info h w3 sourcePath targetPath)]\<rparr>, w4)))"
proof -
  have p1: "(images m = [] \<longrightarrow>
               \<not> adapter_exists h w' (getJsonPath m (imageFolderPath m))
               \<and> \<not> adapter_exists h w' (imageFolderPath m))
            \<and> (images m \<noteq> [] \<longrightarrow>
               adapter_exists h w' (getJsonPath m (imageFolderPath m))
               \<and> adapter_exists h w' (imageFolderPath m))"
    if "saveToJson h m w = (True, w')"
    using saveToJson_exists [OF assms that] .
  have p2: "removeImage h m w lp = (True, m\<lparr>images := []\<rparr>, w2)
            \<and> \<not> adapter_exists h w2 (getJsonPath m (imageFolderPath m))
            \<and> \<not> adapter_exists h w2 (imageFolderPath m)"
    if a: "map_has (images m) lp \<and> map_delete lp (images m) = []
            \<and> remove_if_exists h w lp = Some w1
            \<and> saveToJson h (m\<lparr>images := []\<rparr>) w1 = (True, w2)"
  proof -
    from a have r: "removeImage h m w lp = (True, m\<lparr>images := []\<rparr>, w2)"
      by (simp add: removeImage_def)
    from a have s: "saveToJson h (m\<lparr>images := []\<rparr>) w1 = (True, w2)" by simp
    from saveToJson_exists [OF assms s] r show ?thesis
      by (simp add: getJsonPath_def)
  qed
  have p3: "adapter_exists h w4 (getJsonPath m (imageFolderPath m))
            \<and> adapter_exists h w4 (imageFolderPath m)
            \<and> (\<not> isAutoUpload (settings m) \<longrightarrow>
                 addImage h m w sourcePath =
                   (Some (getRelativePath m targetPath),
                    m\<lparr>images := [(targetPath, new_image_info h w3 sourcePath targetPath)]\<rparr>, w4))"
    if a: "images m = []
            \<and> copyImageToFolder h m w sourcePath = (Some targetPath, w3)
            \<and> saveToJson h
                 (m\<lparr>images := [(targetPath, new_image_info h w3 sourcePath targetPath)]\<rparr>) w3
                = (True, w4)"
  proof -
    let ?m1 = "m\<lparr>images := [(targetPath, new_image_info h w3 sourcePath targetPath)]\<rparr>"
    from a have s: "saveToJson h ?m1 w3 = (True, w4)" by simp
    from a have r: "\<not> isAutoUpload (settings m) \<longrightarrow>
        addImage h m w sourcePath = (Some (getRelativePath m targetPath), ?m1, w4)"
      by (simp add: addImage_def Let_def getRelativePath_def)
    from saveToJson_exists [OF assms s] r show ?thesis
      by (simp add: getJsonPath_def)
  qed
  show ?thesis using p1 p2 p3 by blast
qed

lemma map_of_filter_None: "\<not> P k \<Longrightarrow> map_of (filter (\<lambda>e. P (fst e)) es) k = None"
  by (induction es) auto

lemma map_of_filter_Some:
  "map_of (filter Q es) k = Some v \<Longrightarrow> map_of es k \<noteq> None"
  by (induction es) (auto split: if_splits)

lemma vault_keeps_laws: "vault_laws vault_host"
proof -
  have rm: "\<not> v_exists w' p \<and> (\<forall>q. v_exists w' q \<longrightarrow> v_exists w q)"
    if "v_remove w p = Some w'" for w p w'
    using that
    by (auto simp: v_remove_def v_exists_def map_of_map_delete split: if_splits)
  have rd: "\<not> v_exists w' p \<and> (\<forall>q. v_exists w' q \<longrightarrow> v_exists w q)"
    if "v_rmdir w p = Some w'" for w p w'
    using that map_of_filter_None [of "\<lambda>k. k \<noteq> p \<and> \<not> under p k" p "files w"]
    by (auto simp: v_rmdir_def v_exists_def split: if_splits dest: map_of_filter_Some)
  have mk: "v_exists w' p \<and> (\<forall>q. v_exists w q \<longrightarrow> v_exists w' q)"
    if "v_mkdir w p = Some w'" for w p w'
    using that by (auto simp: v_mkdir_def v_exists_def split: if_splits)
  have wr: "v_exists w' p \<and> v_read w' p = Some c \<and> (\<forall>q. v_exists w q \<longrightarrow> v_exists w' q)"
    if "v_write w p c = Some w'" for w p c w'
    using that by (auto simp: v_write_def v_exists_def v_read_def map_of_map_set split: if_splits)
  show ?thesis
    unfolding vault_laws_def vault_host_def using rm rd mk wr by simp
qed

theorem sidecar_and_folder_follow_map_witness:
  "saveToJson vault_host notes_manager (locked_vault\<lparr>locked := []\<rparr>)
     = (True, snd (saveToJson vault_host notes_manager (locked_vault\<lparr>locked := []\<rparr>)))
   \<and> images notes_manager \<noteq> []
   \<and> adapter_exists vault_host (snd (saveToJson vault_host notes_manager (locked_vault\<lparr>locked := []\<rparr>)))
        ''notes/_assets.a/a.json''
   \<and> adapter_exists vault_host (snd (saveToJson vault_host notes_manager (locked_vault\<lparr>locked := []\<rparr>)))
        ''notes/_assets.a''
   \<and> removeImage vault_host notes_manager
        (snd (saveToJson vault_host notes_manager (locked_vault\<lparr>locked := []\<rparr>)))
        ''notes/_assets.a/img.png''
       = (True, notes_manager\<lparr>images := []\<rparr>, empty_vault\<lparr>files := [(''notes/a.md'', Bytes ''# a'')]\<rparr>)
   \<and> \<not> adapter_exists vault_host (empty_vault\<lparr>files := [(''notes/a.md'', Bytes ''# a'')]\<rparr>)
        ''notes/_assets.a/a.json''
   \<and> \<not> adapter_exists vault_host (empty_vault\<lparr>files := [(''notes/a.md'', Bytes ''# a'')]\<rparr>)
        ''notes/_assets.a''
   \<and> images root_manager = [] \<and> \<not> isAutoUpload (settings root_manager)
   \<and> fst (addImage vault_host root_manager root_vault ''tmp/img.png'') = Some ''_assetsdoc/img.png''
   \<and> adapter_exists vault_host (snd (snd (addImage vault_host root_manager root_vault ''tmp/img.png'')))
        ''_assets.doc/doc.json''
   \<and> adapter_exists vault_host (snd (snd (addImage vault_host root_manager root_vault ''tmp/img.png'')))
        ''_assets.doc''"
proof -
  let ?w = "locked_vault\<lparr>locked := []\<rparr>"
  let ?w' = "snd (saveToJson vault_host notes_manager ?w)"
  let ?e = "empty_vault\<lparr>files := [(''notes/a.md'', Bytes ''# a'')]\<rparr>"
  let ?k = "''notes/_assets.a/img.png''"
  have s1: "saveToJson vault_host notes_manager ?w = (True, ?w')" by code_simp
  have n1: "images notes_manager \<noteq> []" by code_simp
  have j1: "getJsonPath notes_manager (imageFolderPath notes_manager) = ''notes/_assets.a/a.json''"
    "imageFolderPath notes_manager = ''notes/_assets.a''"
    by code_simp+
  have r1: "map_has (images notes_manager) ?k" "map_delete ?k (images notes_manager) = []"
    by code_simp+
  have r2: "remove_if_exists vault_host ?w' ?k = Some (the (remove_if_exists vault_host ?w' ?k))"
    by code_simp
  have r3: "saveToJson vault_host (notes_manager\<lparr>images := []\<rparr>)
              (the (remove_if_exists vault_host ?w' ?k)) = (True, ?e)"
    by code_simp
  have a1: "images root_manager = []" "\<not> isAutoUpload (settings root_manager)"
    by code_simp+
  let ?w3 = "snd (copyImageToFolder vault_host root_manager root_vault ''tmp/img.png'')"
  let ?m1 = "root_manager\<lparr>images := [(''_assets.doc/img.png'',
               new_image_info vault_host ?w3 ''tmp/img.png'' ''_assets.doc/img.png'')]\<rparr>"
  have a2: "copyImageToFolder vault_host root_manager root_vault ''tmp/img.png''
              = (Some ''_assets.doc/img.png'', ?w3)"
    by code_simp
  have a3: "saveToJson vault_host ?m1 ?w3 = (True, snd (saveToJson vault_host ?m1 ?w3))"
    by code_simp
  have j2: "getJsonPath root_manager (imageFolderPath root_manager) = ''_assets.doc/doc.json''"
    "imageFolderPath root_manager = ''_assets.doc''"
    "getRelativePath root_manager ''_assets.doc/img.png'' = ''_assetsdoc/img.png''"
    by code_simp+
  note t1 = sidecar_and_folder_follow_map [OF vault_keeps_laws, where m = notes_manager
      and w = ?w and w' = ?w' and lp = ?k and ?w1.0 = "the (remove_if_exists vault_host ?w' ?k)"
      and ?w2.0 = ?e]
  note t2 = sidecar_and_folder_follow_map [OF vault_keeps_laws, where m = notes_manager
      and w = ?w' and lp = ?k and ?w1.0 = "the (remove_if_exists vault_host ?w' ?k)"
      and ?w2.0 = ?e]
  note t3 = sidecar_and_folder_follow_map [OF vault_keeps_laws, where m = root_manager
      and w = root_vault and sourcePath = "''tmp/img.png''" and targetPath = "''_assets.doc/img.png''"
      and ?w3.0 = ?w3 and ?w4.0 = "snd (saveToJson vault_host ?m1 ?w3)"]
  from t1 s1 n1 j1 have c1: "adapter_exists vault_host ?w' ''notes/_assets.a/a.json''"
    "adapter_exists vault_host ?w' ''notes/_assets.a''" by simp_all
  from t2 r1 r2 r3 j1 have c2: "removeImage vault_host notes_manager ?w' ?k
       = (True, notes_manager\<lparr>images := []\<rparr>, ?e)"
    "\<not> adapter_exists vault_host ?e ''notes/_assets.a/a.json''"
    "\<not> adapter_exists vault_host ?e ''notes/_assets.a''" by simp_all
  from t3 a1 a2 a3 j2 have c3:
    "addImage vault_host root_manager root_vault ''tmp/img.png''
       = (Some ''_assetsdoc/img.png'', ?m1, snd (saveToJson vault_host ?m1 ?w3))"
    "adapter_exists vault_host (snd (saveToJson vault_host ?m1 ?w3)) ''_assets.doc/doc.json''"
    "adapter_exists vault_host (snd (saveToJson vault_host ?m1 ?w3)) ''_assets.doc''"
    by simp_all
  show ?thesis using s1 n1 c1 c2 a1 c3 by simp
qed

section \<open>Saving and loading\<close>

lemma new_manager_fields:
  assumes "new_DocumentImageManager h st md w = (m0, w0)"
  shows "w0 = snd (math_random h w) \<and> mdPath m0 = md \<and> images m0 = [] \<and> settings m0 = st"
  using assms
  by (auto simp: new_DocumentImageManager_def getImageFolderPath_def getContext_def Let_def
      split: prod.splits)

lemma map_set_fresh: "map_of es k = None \<Longrightarrow> map_set k v es = es @ [(k, v)]"
  by (induction es) (auto split: if_splits)

lemma fold_map_set:
  "distinct (map fst es) \<Longrightarrow> \<forall>k \<in> fst ` set es. map_of acc k = None \<Longrightarrow>
   fold (\<lambda>(key, value). map_set key value) es acc = acc @ es"
proof (induction es arbitrary: acc)
  case Nil
  then show ?case by simp
next
  case (Cons e es)
  obtain k v where e: "e = (k, v)" by (cases e)
  have 1: "map_set k v acc = acc @ [(k, v)]"
    using Cons.prems(2) e by (intro map_set_fresh) simp
  have 2: "\<forall>k' \<in> fst ` set es. map_of (acc @ [(k, v)]) k' = None"
    using Cons.prems e by (auto simp: map_add_def split: option.splits)
  from Cons.IH [OF _ 2] Cons.prems(1) 1 e show ?case by simp
qed

lemma Object_fromEntries_set: "set (Object_fromEntries es) = set es"
  by (auto simp: Object_fromEntries_def)

lemma Object_fromEntries_distinct:
  assumes "distinct (map fst es)"
  shows "distinct (map fst (Object_fromEntries es))"
proof -
  from assms have d: "distinct es" and i: "inj_on fst (set es)"
    by (simp_all add: distinct_map)
  have "distinct (Object_fromEntries es)"
    using d by (auto simp: Object_fromEntries_def)
  moreover have "inj_on fst (set (Object_fromEntries es))"
    using i by (simp add: Object_fromEntries_set)
  ultimately show ?thesis by (simp add: distinct_map)
qed

lemma Object_fromEntries_map_of:
  assumes "distinct (map fst es)"
  shows "map_of (Object_fromEntries es) = map_of es"
  using map_of_inject_set [OF Object_fromEntries_distinct [OF assms] assms]
  by (simp add: Object_fromEntries_set)

text \<open>
  C3, for a fresh manager that resolves the same asset folder. In a vault that keeps its
  laws, with a faithful JSON codec, let \<^verbatim>\<open>saveToJson\<close> succeed on a manager (whose keys are
  distinct, as the keys of a map are), and let a fresh manager for the same document
  path and settings come out with the same \<^verbatim>\<open>imageFolderPath\<close>. Then \<^verbatim>\<open>loadFromJson\<close> on
  it gives a map with the same keys and the same records; it returns true exactly when
  there was a record to load.
\<close>

theorem saveToJson_loadFromJson:
  assumes "vault_laws h" "random_keeps_files h" "json_codec h"
    and "distinct (map fst (images m))"
    and "saveToJson h m w = (True, w')"
    and "new_DocumentImageManager h (settings m) (mdPath m) w' = (m0, w0)"
    and "imageFolderPath m0 = imageFolderPath m"
  shows "\<exists>m1. loadFromJson h m0 w0 = (images m \<noteq> [], m1)
              \<and> map_of (images m1) = map_of (images m)"
proof -
  let ?jp = "getJsonPath m (imageFolderPath m)"
  from new_manager_fields [OF assms(6)] have
    f: "w0 = snd (math_random h w')" "mdPath m0 = mdPath m" "images m0 = []" by simp_all
  have jp0: "getJsonPath m0 (imageFolderPath m0) = ?jp"
    using f(2) assms(7) by (simp add: getJsonPath_def)
  from assms(2) f(1) have same: "adapter_exists h w0 ?jp = adapter_exists h w' ?jp"
    "adapter_read h w0 ?jp = adapter_read h w' ?jp"
    unfolding random_keeps_files_def by simp_all
  show ?thesis
  proof (cases "images m = []")
    case True
    from saveToJson_exists [OF assms(1) assms(5)] True have "\<not> adapter_exists h w' ?jp" by simp
    with same have "loadFromJson h m0 w0 = (False, m0)"
      by (simp add: loadFromJson_def jp0)
    with True f(3) show ?thesis by simp
  next
    case False
    let ?data = "JDocument (mdPath m) (Object_fromEntries (images m))"
    from False assms(5) obtain w1 where
      a: "adapter_write h w1 ?jp (JSON_stringify h ?data) = Some w'"
      by (rule saveToJson_nonempty_success)
    from assms(1) a have "adapter_exists h w' ?jp"
      "adapter_read h w' ?jp = Some (JSON_stringify h ?data)"
      unfolding vault_laws_def by blast+
    with same have e: "adapter_exists h w0 ?jp"
      and r: "adapter_read h w0 ?jp = Some (JSON_stringify h ?data)" by simp_all
    from assms(3) have p: "JSON_parse h (JSON_stringify h ?data) = Some ?data"
      unfolding json_codec_def by blast
    have l: "loadFromJson h m0 w0 =
        (True, m0\<lparr>images := fold (\<lambda>(key, value). map_set key value)
                              (Object_fromEntries (images m)) []\<rparr>)"
      using e r p by (simp add: loadFromJson_def jp0)
    have "fold (\<lambda>(key, value). map_set key value) (Object_fromEntries (images m)) []
          = Object_fromEntries (images m)"
      using fold_map_set [OF Object_fromEntries_distinct [OF assms(4)], of "[]"] by simp
    with l False Object_fromEntries_map_of [OF assms(4)] show ?thesis by simp
  qed
qed

text \<open>
  Without that proviso the claim fails. The folder is resolved anew by every manager, and
  \<^verbatim>\<open>{{random}}\<close> (as \<^verbatim>\<open>{{date}}\<close> and \<^verbatim>\<open>{{time}}\<close>) resolves differently each time: with the
  folder template \<^verbatim>\<open>_assets.{{random}}\<close> the sidecar is saved under one folder and the fresh
  manager looks for it under another, loads nothing and stays empty.
\<close>

theorem fresh_manager_misses_sidecar:
  "fst (snd random_saved) = True
   \<and> settings (fst random_saved) = random_settings
   \<and> mdPath (fst random_saved) = ''doc.md''
   \<and> map fst (images (fst random_saved)) = [''_assets.aaaaaaaa/img.png'']
   \<and> (case new_DocumentImageManager vault_host random_settings ''doc.md'' (snd (snd random_saved)) of
        (m0, w0) \<Rightarrow>
          imageFolderPath m0 = ''_assets.bbbbbbbb''
          \<and> loadFromJson vault_host m0 w0 = (False, m0)
          \<and> images (snd (loadFromJson vault_host m0 w0)) = [])"
  by code_simp

lemma vault_random_keeps_files: "random_keeps_files vault_host"
  by (auto simp: random_keeps_files_def vault_host_def v_random_def v_exists_def v_read_def
      split: list.splits)

lemma vault_json_codec: "json_codec vault_host"
  by (simp add: json_codec_def vault_host_def v_parse_def)

theorem saveToJson_loadFromJson_witness:
  "distinct (map fst (images notes_manager))
   \<and> fst (saveToJson vault_host notes_manager (locked_vault\<lparr>locked := []\<rparr>)) = True
   \<and> imageFolderPath (fst (new_DocumentImageManager vault_host DEFAULT_SETTINGS ''notes/a.md''
         (snd (saveToJson vault_host notes_manager (locked_vault\<lparr>locked := []\<rparr>)))))
       = imageFolderPath notes_manager
   \<and> fst (loadFromJson vault_host
         (fst (new_DocumentImageManager vault_host DEFAULT_SETTINGS ''notes/a.md''
            (snd (saveToJson vault_host notes_manager (locked_vault\<lparr>locked := []\<rparr>)))))
         (snd (new_DocumentImageManager vault_host DEFAULT_SETTINGS ''notes/a.md''
            (snd (saveToJson vault_host notes_manager (locked_vault\<lparr>locked := []\<rparr>)))))) = True
   \<and> map_of (images (snd (loadFromJson vault_host
         (fst (new_DocumentImageManager vault_host DEFAULT_SETTINGS ''notes/a.md''
            (snd (saveToJson vault_host notes_manager (locked_vault\<lparr>locked := []\<rparr>)))))
         (snd (new_DocumentImageManager vault_host DEFAULT_SETTINGS ''notes/a.md''
            (snd (saveToJson vault_host notes_manager (locked_vault\<lparr>locked := []\<rparr>))))))))
       = map_of (images notes_manager)"
proof -
  let ?S = "saveToJson vault_host notes_manager (locked_vault\<lparr>locked := []\<rparr>)"
  let ?N = "new_DocumentImageManager vault_host DEFAULT_SETTINGS ''notes/a.md'' (snd ?S)"
  have d: "distinct (map fst (images notes_manager))" by code_simp
  have s: "?S = (True, snd ?S)" and s': "fst ?S = True" by code_simp+
  have st: "settings notes_manager = DEFAULT_SETTINGS" "mdPath notes_manager = ''notes/a.md''"
    "images notes_manager \<noteq> []"
    by code_simp+
  have n: "new_DocumentImageManager vault_host (settings notes_manager) (mdPath notes_manager) (snd ?S)
           = (fst ?N, snd ?N)"
    by (simp add: st)
  have f: "imageFolderPath (fst ?N) = imageFolderPath notes_manager" by code_simp
  from saveToJson_loadFromJson [OF vault_keeps_laws vault_random_keeps_files vault_json_codec d s n f]
  obtain m1 where "loadFromJson vault_host (fst ?N) (snd ?N) = (images notes_manager \<noteq> [], m1)"
    "map_of (images m1) = map_of (images notes_manager)"
    by blast
  with d s' st f show ?thesis by simp
qed

section \<open>Adding the same name twice\<close>

lemma split_where_append:
  "P s \<Longrightarrow> split_where P (a @ s # b) = split_where P a @ split_where P b"
proof (induction a)
  case Nil
  then show ?case by simp
next
  case (Cons x a)
  then show ?case
    using split_where_nonempty [of P a]
    by (cases "split_where P a") auto
qed

lemma split_where_none: "list_all (\<lambda>c. \<not> P c) x \<Longrightarrow> split_where P x = [x]"
  by (induction x) auto

lemma join_with_snoc:
  "join_with sep (ys @ [x]) = (if ys = [] then x else join_with sep ys @ sep @ x)"
  by (induction sep ys rule: join_with.induct) auto

lemma normalizeString_snoc:
  assumes "x \<noteq> []" "x \<noteq> ''.''" "x \<noteq> ''..''"
  shows "normalizeString a res (ss @ [x]) = normalizeString a res ss @ [x]"
  using assms by (induction a res ss rule: normalizeString.induct) (auto split: list.splits)

text \<open>A path that ends in a plain name after a separator, or is the plain name.\<close>

lemma ends_with_nameI1: "ends_with_name x x"
  unfolding ends_with_name_def by (rule exI [of _ "[]"]) simp

lemma ends_with_nameI2: "ends_with_name (q @ ''/'' @ x) x"
  unfolding ends_with_name_def by (rule exI [of _ "q @ ''/''"]) (simp add: slash_def)

lemma ends_with_name_join:
  assumes "x \<noteq> []"
  shows "ends_with_name (join_with ''/'' (ys @ [x])) x \<and> join_with ''/'' (ys @ [x]) \<noteq> []"
proof (cases "ys = []")
  case True
  then show ?thesis using assms by (simp add: ends_with_nameI1)
next
  case False
  then have "join_with ''/'' (ys @ [x]) = join_with ''/'' ys @ ''/'' @ x"
    by (simp add: join_with_snoc)
  then show ?thesis using ends_with_nameI2 [of "join_with ''/'' ys" x] by simp
qed

lemma plain_name_parts:
  assumes "plain_name x"
  shows "x \<noteq> []" "x \<noteq> ''.''" "x \<noteq> ''..''"
    "list_all (\<lambda>c. \<not> (c = slash \<or> c = CHR 0x5C)) x" "list_all (\<lambda>c. \<not> c = slash) x"
    "last x \<noteq> slash"
proof -
  from assms have a: "x \<noteq> []" "x \<noteq> ''.''" "x \<noteq> ''..''"
    and l: "list_all (\<lambda>c. c \<noteq> slash \<and> c \<noteq> CHR 0x5C) x"
    unfolding plain_name_def by blast+
  from l have s: "\<forall>c \<in> set x. c \<noteq> slash \<and> c \<noteq> CHR 0x5C"
    unfolding list_all_iff .
  show "x \<noteq> []" "x \<noteq> ''.''" "x \<noteq> ''..''" by (rule a)+
  from s show "list_all (\<lambda>c. \<not> (c = slash \<or> c = CHR 0x5C)) x"
    unfolding list_all_iff by blast
  from s show "list_all (\<lambda>c. \<not> c = slash) x"
    unfolding list_all_iff by blast
  from a(1) have "last x \<in> set x" by (rule last_in_set)
  with s show "last x \<noteq> slash" by blast
qed

lemma normalizePath_ends:
  assumes "plain_name x" "ends_with_name p x"
  shows "ends_with_name (normalizePath p) x"
proof -
  let ?P = "\<lambda>c. c = slash \<or> c = CHR 0x5C"
  note x = plain_name_parts [OF assms(1)]
  from assms(2) obtain pre where p: "p = pre @ x" "pre = [] \<or> last pre = slash"
    unfolding ends_with_name_def by blast
  have sx: "split_where ?P x = [x]" using x(4) by (rule split_where_none)
  have "\<exists>ys. filter (\<lambda>s. s \<noteq> []) (split_where ?P p) = ys @ [x]"
  proof (cases "pre = []")
    case True
    with p(1) sx x(1) show ?thesis by simp
  next
    case False
    with p(2) have "pre = butlast pre @ [slash]"
      using append_butlast_last_id [of pre] by simp
    with p(1) have "p = butlast pre @ slash # x" by simp
    then have "split_where ?P p = split_where ?P (butlast pre) @ [x]"
      using split_where_append [of ?P slash "butlast pre" x] sx by simp
    with x(1) show ?thesis by simp
  qed
  then obtain ys where ys: "filter (\<lambda>s. s \<noteq> []) (split_where ?P p) = ys @ [x]" by blast
  from ends_with_name_join [OF x(1), of ys] have
    j: "ends_with_name (join_with ''/'' (ys @ [x])) x" "join_with ''/'' (ys @ [x]) \<noteq> []"
    by simp_all
  have "normalizePath p = join_with ''/'' (ys @ [x])"
    unfolding normalizePath_def ys Let_def using j(2) by simp
  with j(1) show ?thesis by simp
qed

lemma normalize_ends:
  assumes "plain_name x" "p = f @ ''/'' @ x \<or> p = x"
  shows "ends_with_name (normalize p) x"
proof -
  note x = plain_name_parts [OF assms(1)]
  from assms(2) x(1) have pne: "p \<noteq> []" by auto
  from assms(2) x(1,6) have lp: "last p \<noteq> slash" by auto
  have sx: "split_where (\<lambda>c. c = slash) x = [x]" using x(5) by (rule split_where_none)
  have "\<exists>ss. split_on slash p = ss @ [x]"
  proof (cases "p = x")
    case True
    then show ?thesis using sx by (simp add: split_on_def)
  next
    case False
    with assms(2) have "p = f @ slash # x" by (simp add: slash_def)
    then have "split_on slash p = split_on slash f @ [x]"
      unfolding split_on_def
      using split_where_append [of "\<lambda>c. c = slash" slash f x] sx by simp
    then show ?thesis by blast
  qed
  then obtain ss where ss: "split_on slash p = ss @ [x]" by blast
  define a where "a = (hd p \<noteq> slash)"
  define zs where "zs = normalizeString a [] ss"
  have n: "normalizeString a [] (split_on slash p) = zs @ [x]"
    unfolding ss zs_def using x(1-3) by (rule normalizeString_snoc)
  from ends_with_name_join [OF x(1), of zs] have
    j: "ends_with_name (join_with ''/'' (zs @ [x])) x" "join_with ''/'' (zs @ [x]) \<noteq> []"
    by simp_all
  have eq: "normalize p = (if hd p = slash then ''/'' else []) @ join_with ''/'' (zs @ [x])"
    unfolding normalize_def Let_def using pne lp j(2) n by (simp add: a_def)
  from j(1) obtain pre where pre: "join_with ''/'' (zs @ [x]) = pre @ x" "pre = [] \<or> last pre = slash"
    unfolding ends_with_name_def by blast
  show ?thesis
  proof (cases "hd p = slash")
    case False
    with eq j(1) show ?thesis by simp
  next
    case True
    with eq pre(1) have "normalize p = (''/'' @ pre) @ x" by simp
    moreover have "last (''/'' @ pre) = slash" using pre(2) by (auto simp: slash_def)
    ultimately show ?thesis unfolding ends_with_name_def by blast
  qed
qed

lemma basename_ends:
  assumes "plain_name x" "ends_with_name p x"
  shows "basename p = x"
proof -
  note x = plain_name_parts [OF assms(1)]
  from assms(2) obtain pre where p: "p = pre @ x" "pre = [] \<or> last pre = slash"
    unfolding ends_with_name_def by blast
  have r: "rev p = rev x @ rev pre" by (simp add: p)
  obtain c cs where rx: "rev x = c # cs" using x(1) by (cases "rev x") auto
  have "c = last x" using rx x(1) by (metis hd_rev list.sel(1))
  with x(6) have c: "c \<noteq> slash" by simp
  have d: "dropWhile (\<lambda>c. c = slash) (rev p) = rev x @ rev pre"
    unfolding r rx using c by simp
  have tp: "takeWhile (\<lambda>c. c \<noteq> slash) (rev pre) = []"
  proof (cases "pre = []")
    case True
    then show ?thesis by simp
  next
    case False
    with p(2) have "hd (rev pre) = slash" by (simp add: hd_rev)
    with False show ?thesis by (cases "rev pre") auto
  qed
  have "\<forall>c \<in> set (rev x). c \<noteq> slash" using x(5) by (simp add: list_all_iff)
  then have "takeWhile (\<lambda>c. c \<noteq> slash) (rev x @ rev pre)
             = rev x @ takeWhile (\<lambda>c. c \<noteq> slash) (rev pre)"
    by (intro takeWhile_append2) simp
  with tp have t: "takeWhile (\<lambda>c. c \<noteq> slash) (rev x @ rev pre) = rev x" by simp
  show ?thesis unfolding basename_def d t by simp
qed

lemma basename_target:
  assumes "plain_name x"
  shows "basename (normalizePath (join folder x)) = x"
proof -
  note x = plain_name_parts [OF assms]
  have "join folder x = normalize (if folder = [] then x else folder @ ''/'' @ x)"
    using x(1) by (simp add: join_def)
  moreover have "ends_with_name (normalize (if folder = [] then x else folder @ ''/'' @ x)) x"
    by (rule normalize_ends [OF assms, of _ folder]) auto
  ultimately have "ends_with_name (join folder x) x" by simp
  from basename_ends [OF assms normalizePath_ends [OF assms this]] show ?thesis .
qed

lemma lastIndexOf_bounds: "- 1 \<le> lastIndexOf s c \<and> lastIndexOf s c < int (length s)"
  by (induction s) (auto simp: Let_def)

lemma stem_ext:
  "substring n 0 (lastIndexOf n c) @ substring_from n (lastIndexOf n c) = n"
proof -
  define k where "k = lastIndexOf n c"
  have b: "- 1 \<le> k" "k < int (length n)"
    using lastIndexOf_bounds [of n c] by (simp_all add: k_def)
  have 1: "substring n 0 k = take (nat k) n"
    using b by (auto simp: substring_def Let_def min_def max_def)
  have 2: "substring_from n k = drop (nat k) n"
    using b by (auto simp: substring_from_def substring_def Let_def min_def max_def)
  show ?thesis unfolding k_def [symmetric] 1 2 by simp
qed

lemma stem_ext_set:
  "set (substring n 0 k) \<subseteq> set n" "set (substring_from n k) \<subseteq> set n"
  by (auto simp: substring_def substring_from_def Let_def dest: in_set_takeD in_set_dropD)

lemma digit_char_plain: "digit_char d \<noteq> slash \<and> digit_char d \<noteq> CHR 0x5C"
  by (simp add: digit_char_def slash_def)

lemma show_digits_plain:
  "show_digits i \<noteq> [] \<and> (\<forall>c \<in> set (show_digits i). c \<noteq> slash \<and> c \<noteq> CHR 0x5C)"
proof (induction i rule: show_digits.induct)
  case (1 i)
  show ?case
  proof (cases "i < 10")
    case True
    then show ?thesis using digit_char_plain [of i] by (subst (1 2) show_digits.simps) simp
  next
    case False
    with 1 digit_char_plain [of "i mod 10"] show ?thesis
      by (subst (1 2) show_digits.simps) auto
  qed
qed

lemma show_int_plain:
  "show_int i \<noteq> [] \<and> (\<forall>c \<in> set (show_int i). c \<noteq> slash \<and> c \<noteq> CHR 0x5C)"
  using show_digits_plain [of i] show_digits_plain [of "- i"]
  by (auto simp: show_int_def slash_def)

lemma nameWithTimestamp_plain:
  assumes "plain_name n"
  shows "plain_name (nameWithTimestamp n ts)"
proof -
  note x = plain_name_parts [OF assms]
  define k where "k = lastIndexOf n CHR ''.''"
  define r where "r = nameWithTimestamp n ts"
  define stem where "stem = substring n 0 k"
  define ext where "ext = substring_from n k"
  have r: "r = stem @ ''_'' @ show_int ts @ ext"
    by (simp add: r_def nameWithTimestamp_def Let_def k_def stem_def ext_def)
  define P where "P = (\<lambda>c. c \<noteq> slash \<and> c \<noteq> CHR 0x5C)"
  from x(4) have n: "\<forall>c \<in> set n. P c"
    unfolding list_all_iff P_def by blast
  have s1: "\<forall>c \<in> set stem. P c"
    using n stem_ext_set(1) [of n k] unfolding stem_def by blast
  have s2: "\<forall>c \<in> set ext. P c"
    using n stem_ext_set(2) [of n k] unfolding ext_def by blast
  have s3: "\<forall>c \<in> set (show_int ts). P c"
    using show_int_plain [of ts] unfolding P_def by blast
  have s4: "P CHR ''_''" by (simp add: P_def slash_def)
  have sr: "set r = set stem \<union> {CHR ''_''} \<union> set (show_int ts) \<union> set ext"
    unfolding r by auto
  have "\<forall>c \<in> set r. P c"
    unfolding sr using s1 s2 s3 s4 by (simp add: ball_Un)
  then have l: "list_all (\<lambda>c. c \<noteq> slash \<and> c \<noteq> CHR 0x5C) r"
    unfolding list_all_iff P_def .
  have u: "CHR ''_'' \<in> set r" unfolding sr by simp
  have "r \<noteq> []" using u by auto
  moreover have "r \<noteq> ''.''"
  proof
    assume "r = ''.''"
    with u show False by simp
  qed
  moreover have "r \<noteq> ''..''"
  proof
    assume "r = ''..''"
    with u show False by simp
  qed
  ultimately show ?thesis using l unfolding r_def [symmetric] plain_name_def by blast
qed

lemma nameWithTimestamp_longer: "length (nameWithTimestamp n ts) > length n"
proof -
  have "length (nameWithTimestamp n ts) =
        length (substring n 0 (lastIndexOf n CHR ''.'') @ substring_from n (lastIndexOf n CHR ''.''))
        + 1 + length (show_int ts)"
    by (simp add: nameWithTimestamp_def Let_def)
  then show ?thesis by (simp add: stem_ext)
qed

lemma timestamped_target_differs:
  assumes "plain_name n"
  shows "normalizePath (join folder (nameWithTimestamp n ts)) \<noteq> normalizePath (join folder n)"
proof
  assume "normalizePath (join folder (nameWithTimestamp n ts)) = normalizePath (join folder n)"
  then have "basename (normalizePath (join folder (nameWithTimestamp n ts)))
             = basename (normalizePath (join folder n))" by simp
  then have "nameWithTimestamp n ts = n"
    by (simp add: basename_target [OF assms] basename_target [OF nameWithTimestamp_plain [OF assms]])
  with nameWithTimestamp_longer [of n ts] show False by simp
qed

lemma map_has_keys: "map_has es k = (k \<in> set (map fst es))"
  by (induction es) (auto simp: map_has_def)

lemma uploadImage_fields:
  assumes "uploadImage h m w p = (s, m1, w1)"
  shows "imageFolderPath m1 = imageFolderPath m \<and> mdPath m1 = mdPath m \<and> settings m1 = settings m"
proof (cases "pending_key m p")
  case False
  with assms uploadImage_not_pending [OF False, of h w] show ?thesis by simp
next
  case True
  then obtain info where i: "map_of (images m) p = Some info" "\<not> isUploaded info"
    by (auto simp: pending_key_def split: option.splits)
  from i assms show ?thesis
    by (cases rule: uploadImage_pending) auto
qed

lemma addImage_key:
  assumes "addImage h m w s = (Some t, m', w')"
  shows "\<exists>K wc. copyImageToFolder h m w s = (Some K, wc)
           \<and> map_has (images m') K
           \<and> imageFolderPath m' = imageFolderPath m
           \<and> (\<forall>k. map_has (images m) k \<longrightarrow> map_has (images m') k)"
proof -
  obtain r wc where c: "copyImageToFolder h m w s = (r, wc)"
    by (cases "copyImageToFolder h m w s")
  with assms obtain K where K: "r = Some K" by (cases r) (auto simp: addImage_def)
  define m1 where "m1 = m\<lparr>images := map_set K (new_image_info h wc s K) (images m)\<rparr>"
  obtain b w2 where sv: "saveToJson h m1 wc = (b, w2)" by (cases "saveToJson h m1 wc")
  have k1: "map_has (images m1) K" "\<forall>k. map_has (images m) k \<longrightarrow> map_has (images m1) k"
    "imageFolderPath m1 = imageFolderPath m"
    by (auto simp: m1_def map_has_def map_of_map_set)
  have "map fst (images m') = map fst (images m1) \<and> imageFolderPath m' = imageFolderPath m1"
  proof (cases "isAutoUpload (settings m)")
    case False
    with assms c K sv show ?thesis
      by (simp add: addImage_def Let_def m1_def [symmetric])
  next
    case True
    obtain su m2 w3 where u: "uploadImage h m1 w2 K = (su, m2, w3)"
      by (cases "uploadImage h m1 w2 K") auto
    from True assms c K sv u have "m' = m2"
      by (auto simp: addImage_def Let_def m1_def [symmetric] split: option.splits bool.splits)
    with uploadImage_frame [OF u] uploadImage_fields [OF u] show ?thesis by simp
  qed
  with k1 c K show ?thesis by (simp add: map_has_keys)
qed

lemma copyImageToFolder_taken:
  assumes "ensure_folder h w (imageFolderPath m) = Some w1"
    and "adapter_exists h w1 (normalizePath (join (imageFolderPath m) (basename s)))"
    and "copyImageToFolder h m w s = (Some K, wc)"
  shows "K = normalizePath (join (imageFolderPath m)
               (nameWithTimestamp (basename s) (date_now h w1)))
         \<and> (\<exists>content. adapter_readBinary h w1 s = Some content
                \<and> adapter_writeBinary h w1 K content = Some wc)"
  using assms by (auto simp: copyImageToFolder_def Let_def split: option.splits)

text \<open>
  C5, for a first copy that is still in the folder. Let two sources have the same base
  name, a plain file name. Let the first \<^verbatim>\<open>addImage\<close> succeed and store its copy under
  that name in the asset folder, and let that file still be there when the second call
  looks for it. If the second \<^verbatim>\<open>addImage\<close> succeeds, it has written the bytes of its source
  to the name with the reading of the clock inserted before the extension; that path is
  not the path of the first copy, and the map holds a record under each of the two paths.
\<close>

theorem addImage_same_name_twice:
  assumes "plain_name n" "basename s1 = n" "basename s2 = n"
    and "copyImageToFolder h m w s1 = (Some (normalizePath (join (imageFolderPath m) n)), wc1)"
    and "addImage h m w s1 = (Some t1, m1, w1)"
    and "ensure_folder h w1 (imageFolderPath m) = Some w1'"
    and "adapter_exists h w1' (normalizePath (join (imageFolderPath m) n))"
    and "addImage h m1 w1 s2 = (Some t2, m2, w2)"
  shows "\<exists>content wc2.
           copyImageToFolder h m1 w1 s2
             = (Some (normalizePath (join (imageFolderPath m) (nameWithTimestamp n (date_now h w1')))), wc2)
           \<and> adapter_readBinary h w1' s2 = Some content
           \<and> adapter_writeBinary h w1'
                (normalizePath (join (imageFolderPath m) (nameWithTimestamp n (date_now h w1')))) content
              = Some wc2
           \<and> normalizePath (join (imageFolderPath m) (nameWithTimestamp n (date_now h w1')))
              \<noteq> normalizePath (join (imageFolderPath m) n)
           \<and> map_has (images m2) (normalizePath (join (imageFolderPath m) n))
           \<and> map_has (images m2)
                (normalizePath (join (imageFolderPath m) (nameWithTimestamp n (date_now h w1'))))"
proof -
  let ?target = "normalizePath (join (imageFolderPath m) n)"
  let ?T = "normalizePath (join (imageFolderPath m) (nameWithTimestamp n (date_now h w1')))"
  from addImage_key [OF assms(5)] assms(4) have
    a1: "map_has (images m1) ?target" "imageFolderPath m1 = imageFolderPath m"
    by auto
  from addImage_key [OF assms(8)] obtain K wc2 where
    a2: "copyImageToFolder h m1 w1 s2 = (Some K, wc2)" "map_has (images m2) K"
      "\<forall>k. map_has (images m1) k \<longrightarrow> map_has (images m2) k"
    by blast
  from copyImageToFolder_taken [of h w1 m1 w1' s2 K wc2] assms(3,6,7) a1(2) a2(1)
  obtain content where
    k: "K = ?T" "adapter_readBinary h w1' s2 = Some content"
       "adapter_writeBinary h w1' K content = Some wc2"
    by auto
  have ne: "?T \<noteq> ?target" by (rule timestamped_target_differs [OF assms(1)])
  from a1(1) a2(3) have "map_has (images m2) ?target" by blast
  with k a2 ne show ?thesis by blast
qed

text \<open>
  Without those provisos the claim fails. When local copies are deleted after their upload
  the name is free again, the second call writes to the very same path and its record
  replaces the first under the same key. And the name with the time stamp is written
  without a look at what is there: a third image of that name, added within the same
  millisecond as the second, replaces the bytes of the second and takes over its key.
\<close>

theorem addImage_reuses_key:
  "(case addImage vault_host delete_temp_manager twice_vault ''tmp/img.png'' of
      (t1, m1, w1) \<Rightarrow>
        (case addImage vault_host m1 w1 ''clip/img.png'' of
           (t2, m2, w2) \<Rightarrow>
             t1 = Some ''https://x/img.png'' \<and> t2 = Some ''https://x/img.png''
             \<and> map fst (images m1) = [''notes/_assets.b/img.png'']
             \<and> map fst (images m2) = [''notes/_assets.b/img.png'']))
   \<and> (case addImage vault_host twice_manager twice_vault ''tmp/img.png'' of
        (t1, m1, w1) \<Rightarrow>
          (case addImage vault_host m1 w1 ''clip/img.png'' of
             (t2, m2, w2) \<Rightarrow>
               (case addImage vault_host m2 w2 ''shot/img.png'' of
                  (t3, m3, w3) \<Rightarrow>
                    t2 = Some ''_assets.b/img_1700000000000.png''
                    \<and> t3 = Some ''_assets.b/img_1700000000000.png''
                    \<and> v_read w2 ''notes/_assets.b/img_1700000000000.png'' = Some (Bytes ''PNG2'')
                    \<and> v_read w3 ''notes/_assets.b/img_1700000000000.png'' = Some (Bytes ''PNG3'')
                    \<and> map fst (images m3)
                        = [''notes/_assets.b/img.png'', ''notes/_assets.b/img_1700000000000.png''])))"
  by code_simp

theorem addImage_same_name_twice_witness:
  "plain_name ''img.png''
   \<and> basename ''tmp/img.png'' = ''img.png'' \<and> basename ''clip/img.png'' = ''img.png''
   \<and> fst (copyImageToFolder vault_host twice_manager twice_vault ''tmp/img.png'')
       = Some ''notes/_assets.b/img.png''
   \<and> fst (addImage vault_host twice_manager twice_vault ''tmp/img.png'') = Some ''_assets.b/img.png''
   \<and> v_exists (snd (snd (addImage vault_host twice_manager twice_vault ''tmp/img.png'')))
         ''notes/_assets.b/img.png''
   \<and> fst (addImage vault_host
         (fst (snd (addImage vault_host twice_manager twice_vault ''tmp/img.png'')))
         (snd (snd (addImage vault_host twice_manager twice_vault ''tmp/img.png'')))
         ''clip/img.png'') = Some ''_assets.b/img_1700000000000.png''
   \<and> fst (copyImageToFolder vault_host
         (fst (snd (addImage vault_host twice_manager twice_vault ''tmp/img.png'')))
         (snd (snd (addImage vault_host twice_manager twice_vault ''tmp/img.png'')))
         ''clip/img.png'') = Some ''notes/_assets.b/img_1700000000000.png''
   \<and> map_has (images (fst (snd (addImage vault_host
         (fst (snd (addImage vault_host twice_manager twice_vault ''tmp/img.png'')))
         (snd (snd (addImage vault_host twice_manager twice_vault ''tmp/img.png'')))
         ''clip/img.png'')))) ''notes/_assets.b/img.png''
   \<and> map_has (images (fst (snd (addImage vault_host
         (fst (snd (addImage vault_host twice_manager twice_vault ''tmp/img.png'')))
         (snd (snd (addImage vault_host twice_manager twice_vault ''tmp/img.png'')))
         ''clip/img.png'')))) ''notes/_assets.b/img_1700000000000.png''"
proof -
  let ?A = "addImage vault_host twice_manager twice_vault ''tmp/img.png''"
  let ?C = "copyImageToFolder vault_host twice_manager twice_vault ''tmp/img.png''"
  let ?B = "addImage vault_host (fst (snd ?A)) (snd (snd ?A)) ''clip/img.png''"
  let ?D = "copyImageToFolder vault_host (fst (snd ?A)) (snd (snd ?A)) ''clip/img.png''"
  have f: "imageFolderPath twice_manager = ''notes/_assets.b''" by code_simp
  have p: "plain_name ''img.png''" by code_simp
  have b: "basename ''tmp/img.png'' = ''img.png''" "basename ''clip/img.png'' = ''img.png''"
    by code_simp+
  have t: "normalizePath (join ''notes/_assets.b'' ''img.png'') = ''notes/_assets.b/img.png''"
    by code_simp
  have c: "fst ?C = Some ''notes/_assets.b/img.png''" by code_simp
  have a: "fst ?A = Some ''_assets.b/img.png''" by code_simp
  have e: "ensure_folder vault_host (snd (snd ?A)) ''notes/_assets.b'' = Some (snd (snd ?A))"
    by code_simp
  have x: "v_exists (snd (snd ?A)) ''notes/_assets.b/img.png''" by code_simp
  have x': "adapter_exists vault_host (snd (snd ?A)) ''notes/_assets.b/img.png''" by code_simp
  have a2: "fst ?B = Some ''_assets.b/img_1700000000000.png''" by code_simp
  have n: "date_now vault_host (snd (snd ?A)) = 1700000000000" by code_simp
  have ts: "normalizePath (join ''notes/_assets.b'' (nameWithTimestamp ''img.png'' 1700000000000))
            = ''notes/_assets.b/img_1700000000000.png''" by code_simp
  have c': "?C = (Some (normalizePath (join (imageFolderPath twice_manager) ''img.png'')), snd ?C)"
    using c by (simp add: f t prod_eq_iff)
  have a': "?A = (Some ''_assets.b/img.png'', fst (snd ?A), snd (snd ?A))"
    using a by (simp add: prod_eq_iff)
  have b': "?B = (Some ''_assets.b/img_1700000000000.png'', fst (snd ?B), snd (snd ?B))"
    using a2 by (simp add: prod_eq_iff)
  from addImage_same_name_twice [OF p b c' a' _ _ b', of "snd (snd ?A)"] e x'
  have "fst ?D = Some ''notes/_assets.b/img_1700000000000.png''
        \<and> map_has (images (fst (snd ?B))) ''notes/_assets.b/img.png''
        \<and> map_has (images (fst (snd ?B))) ''notes/_assets.b/img_1700000000000.png''"
    by (auto simp: f t n ts)
  with p b c a x a2 show ?thesis by simp
qed

section \<open>Uploaded records and their remote path\<close>

lemma inv_map_set:
  "list_all (\<lambda>e. remote_when_uploaded (snd e)) es \<Longrightarrow> remote_when_uploaded v
   \<Longrightarrow> list_all (\<lambda>e. remote_when_uploaded (snd e)) (map_set k v es)"
  by (induction es) auto

lemma inv_map_delete:
  "list_all (\<lambda>e. remote_when_uploaded (snd e)) es
   \<Longrightarrow> list_all (\<lambda>e. remote_when_uploaded (snd e)) (map_delete k es)"
  by (induction es) (auto simp: map_delete_def)

lemma inv_map_of:
  "list_all (\<lambda>e. remote_when_uploaded (snd e)) es \<Longrightarrow> map_of es k = Some info
   \<Longrightarrow> remote_when_uploaded info"
  by (induction es) (auto split: if_splits)

lemma uploadImage_inv:
  assumes "gives_address h" "uploaded_have_remote m" "uploadImage h m w p = (s, m1, w1)"
  shows "uploaded_have_remote m1"
proof (cases "pending_key m p")
  case False
  with assms uploadImage_not_pending [OF False, of h w] show ?thesis by simp
next
  case True
  then obtain info where i: "map_of (images m) p = Some info" "\<not> isUploaded info"
    by (auto simp: pending_key_def split: option.splits)
  from i assms(3) show ?thesis
  proof (cases rule: uploadImage_pending)
    case (rejected wu)
    with assms(2) show ?thesis by simp
  next
    case (resolved result wu info' b w2)
    from assms(1) resolved(1) have "hd (split_on CHR '','' result) \<noteq> []"
      unfolding gives_address_def by blast
    then have "remote_when_uploaded info'"
      by (simp add: resolved(2) remote_when_uploaded_def)
    with assms(2) show ?thesis
      unfolding uploaded_have_remote_def resolved(3) by (simp add: inv_map_set)
  qed
qed

lemma new_image_info_not_uploaded: "remote_when_uploaded (new_image_info h w s t)"
  by (simp add: new_image_info_def createImageInfo_def remote_when_uploaded_def Let_def
      split: option.splits)

lemma addImage_inv:
  assumes "gives_address h" "uploaded_have_remote m" "addImage h m w s = (t, m', w')"
  shows "uploaded_have_remote m'"
proof -
  obtain r wc where c: "copyImageToFolder h m w s = (r, wc)"
    by (cases "copyImageToFolder h m w s")
  show ?thesis
  proof (cases r)
    case None
    with c assms(2,3) show ?thesis by (simp add: addImage_def)
  next
    case (Some K)
    define m1 where "m1 = m\<lparr>images := map_set K (new_image_info h wc s K) (images m)\<rparr>"
    obtain b w2 where sv: "saveToJson h m1 wc = (b, w2)" by (cases "saveToJson h m1 wc")
    have i1: "uploaded_have_remote m1"
      using assms(2) unfolding uploaded_have_remote_def m1_def
      by (simp add: inv_map_set new_image_info_not_uploaded)
    show ?thesis
    proof (cases "isAutoUpload (settings m)")
      case False
      with assms(3) c Some sv have "m' = m1"
        by (simp add: addImage_def Let_def m1_def [symmetric])
      with i1 show ?thesis by simp
    next
      case True
      obtain su m2 w3 where u: "uploadImage h m1 w2 K = (su, m2, w3)"
        by (cases "uploadImage h m1 w2 K") auto
      from True assms(3) c Some sv u have "m' = m2"
        by (auto simp: addImage_def Let_def m1_def [symmetric] split: option.splits bool.splits)
      with uploadImage_inv [OF assms(1) i1 u] show ?thesis by simp
    qed
  qed
qed

lemma uploadAll_loop_inv:
  "gives_address h \<Longrightarrow> uploaded_have_remote m \<Longrightarrow> uploadAll_loop h ks ok m w = (s, m', w')
   \<Longrightarrow> uploaded_have_remote m'"
proof (induction ks arbitrary: ok m w)
  case Nil
  then show ?case by simp
next
  case (Cons k ks)
  show ?case
  proof (cases "pending_key m k")
    case False
    then have "uploadAll_loop h (k # ks) ok m w = uploadAll_loop h ks ok m w"
      by (auto simp: pending_key_def split: option.splits)
    with Cons show ?thesis by simp
  next
    case True
    obtain su m1 w1 where u: "uploadImage h m w k = (su, m1, w1)"
      by (cases "uploadImage h m w k") auto
    from True u have "uploadAll_loop h (k # ks) ok m w = uploadAll_loop h ks (ok \<and> su) m1 w1"
      by (auto simp: pending_key_def split: option.splits)
    with Cons.prems Cons.IH [OF Cons.prems(1) uploadImage_inv [OF Cons.prems(1,2) u]]
    show ?thesis by simp
  qed
qed

lemma downloadAll_loop_inv:
  "uploaded_have_remote m \<Longrightarrow> downloadAll_loop h ks ok m w = (s, m', w')
   \<Longrightarrow> uploaded_have_remote m'"
proof (induction ks arbitrary: ok m w)
  case Nil
  then show ?case by simp
next
  case (Cons k ks)
  show ?case
  proof (cases "map_of (images m) k")
    case None
    with Cons show ?thesis by simp
  next
    case (Some info)
    show ?thesis
    proof (cases "isUploaded info \<and> (localPath info = [] \<or> \<not> adapter_exists h w (localPath info))")
      case False
      with Some Cons show ?thesis by auto
    next
      case True
      obtain r w1 where d: "downloadImage h m w (remotePath info) = (r, w1)"
        by (cases "downloadImage h m w (remotePath info)")
      show ?thesis
      proof (cases r)
        case None
        with Some True d Cons.prems(2) have "downloadAll_loop h ks False m w1 = (s, m', w')"
          by auto
        with Cons.IH [OF Cons.prems(1)] show ?thesis by simp
      next
        case (Some lp)
        define m1 where "m1 = m\<lparr>images := map_set k
              (info\<lparr>localPath := lp, modifyTime := Some (date_now h w1)\<rparr>) (images m)\<rparr>"
        from inv_map_of [OF _ \<open>map_of (images m) k = Some info\<close>] Cons.prems(1)
        have "remote_when_uploaded info" by (simp add: uploaded_have_remote_def)
        then have "remote_when_uploaded (info\<lparr>localPath := lp, modifyTime := Some (date_now h w1)\<rparr>)"
          by (simp add: remote_when_uploaded_def)
        with Cons.prems(1) have i1: "uploaded_have_remote m1"
          unfolding uploaded_have_remote_def m1_def by (simp add: inv_map_set)
        from Some \<open>map_of (images m) k = Some info\<close> True d Cons.prems(2)
        have "downloadAll_loop h ks ok m1 w1 = (s, m', w')"
          by (auto simp: m1_def)
        with Cons.IH [OF i1] show ?thesis by simp
      qed
    qed
  qed
qed

lemma downloadAllImages_inv:
  assumes "uploaded_have_remote m" "downloadAllImages h m w = (s, m', w')"
  shows "uploaded_have_remote m'"
proof -
  obtain a m1 w1 where l: "downloadAll_loop h (map fst (images m)) True m w = (a, m1, w1)"
    by (cases "downloadAll_loop h (map fst (images m)) True m w") auto
  with assms(2) have "m' = m1"
    by (auto simp: downloadAllImages_def split: prod.splits)
  with downloadAll_loop_inv [OF assms(1) l] show ?thesis by simp
qed

lemma removeImage_inv:
  assumes "uploaded_have_remote m" "removeImage h m w lp = (s, m', w')"
  shows "uploaded_have_remote m'"
proof -
  have "m' = m \<or> m' = m\<lparr>images := map_delete lp (images m)\<rparr>"
    using assms(2)
    by (auto simp: removeImage_def Let_def split: if_splits option.splits prod.splits)
  with assms(1) show ?thesis
    by (auto simp: uploaded_have_remote_def inv_map_delete)
qed

lemma rekey_image_inv:
  assumes "list_all (\<lambda>e. remote_when_uploaded (snd e)) es" "rekey_image file target es = Some es'"
  shows "list_all (\<lambda>e. remote_when_uploaded (snd e)) es'"
proof (cases "map_of es file")
  case None
  with assms show ?thesis by (simp add: rekey_image_def)
next
  case (Some info)
  from inv_map_of [OF assms(1) Some] have "remote_when_uploaded (info\<lparr>localPath := target\<rparr>)"
    by (simp add: remote_when_uploaded_def)
  with assms Some show ?thesis
    by (auto simp: rekey_image_def inv_map_set inv_map_delete split: if_splits)
qed

lemma move_files_inv:
  "uploaded_have_remote m \<Longrightarrow> move_files h old fs m w = (r, m', w')
   \<Longrightarrow> uploaded_have_remote m'"
proof (induction fs arbitrary: m w)
  case Nil
  then show ?case by simp
next
  case (Cons f fs)
  let ?t = "normalizePath (join (imageFolderPath m) (substring_from f (int (length old))))"
  show ?case
  proof (cases "rekey_image f ?t (images m)")
    case None
    with Cons.prems have "m' = m"
      by (auto simp: Let_def split: option.splits)
    with Cons.prems show ?thesis by simp
  next
    case (Some es)
    from rekey_image_inv [OF _ Some] Cons.prems(1)
    have i: "uploaded_have_remote (m\<lparr>images := es\<rparr>)" by (simp add: uploaded_have_remote_def)
    from Cons.prems(2) Some have
      "m' = m \<or> (\<exists>w2. move_files h old fs (m\<lparr>images := es\<rparr>) w2 = (r, m', w'))"
      by (auto simp: Let_def split: option.splits)
    with Cons.prems(1) Cons.IH [OF i] show ?thesis by blast
  qed
qed

lemma inv_fields:
  "uploaded_have_remote (m\<lparr>mdPath := p\<rparr>) = uploaded_have_remote m"
  "uploaded_have_remote (m\<lparr>imageFolderPath := f\<rparr>) = uploaded_have_remote m"
  by (simp_all add: uploaded_have_remote_def)

lemma renameImageFolder_images:
  assumes "renameImageFolder h m w p = (r, m', w')"
  shows "images m' = images m
         \<or> (\<exists>old fs m2 w2 r3 m3 w3. images m2 = images m
               \<and> move_files h old fs m2 w2 = (r3, m3, w3) \<and> images m' = images m3)"
proof (cases "images m = []")
  case True
  with assms show ?thesis by (simp add: renameImageFolder_def)
next
  case False
  obtain folder w1 where g: "getImageFolderPath h (m\<lparr>mdPath := p\<rparr>) w = (folder, w1)"
    by (cases "getImageFolderPath h (m\<lparr>mdPath := p\<rparr>) w")
  define m2 where "m2 = m\<lparr>mdPath := p, imageFolderPath := folder\<rparr>"
  have i2: "images m2 = images m" by (simp add: m2_def)
  show ?thesis
  proof (cases "adapter_exists h w1 (imageFolderPath m)")
    case nex: False
    with assms False g have "m' = m2"
      by (simp add: renameImageFolder_def Let_def m2_def)
    with i2 show ?thesis by simp
  next
    case ex: True
    show ?thesis
    proof (cases "ensure_folder h w1 folder")
      case None
      with assms False g ex have "m' = m2"
        by (simp add: renameImageFolder_def Let_def m2_def)
      with i2 show ?thesis by simp
    next
      case (Some w2)
      show ?thesis
      proof (cases "imageFolderPath m = folder")
        case True
        with assms False g ex Some have "m' = m2"
          by (auto simp: renameImageFolder_def Let_def m2_def split: if_splits option.splits)
        with i2 show ?thesis by simp
      next
        case ne: False
        show ?thesis
        proof (cases "adapter_list h w2 (imageFolderPath m)")
          case None
          with assms False g ex Some ne have "images m' = images m2"
            by (auto simp: renameImageFolder_def Let_def m2_def)
          with i2 show ?thesis by simp
        next
          case (Some fs)
          obtain r3 m3 w3 where mv: "move_files h (imageFolderPath m) fs m2 w2 = (r3, m3, w3)"
            by (cases "move_files h (imageFolderPath m) fs m2 w2") auto
          from assms False g ex \<open>ensure_folder h w1 folder = Some w2\<close> ne Some mv
          have "images m' = images m3"
            by (cases r3)
              (auto simp: renameImageFolder_def Let_def m2_def [symmetric]
                 split: option.splits prod.splits)
          with i2 mv show ?thesis by blast
        qed
      qed
    qed
  qed
qed

lemma renameImageFolder_inv:
  assumes "uploaded_have_remote m" "renameImageFolder h m w p = (r, m', w')"
  shows "uploaded_have_remote m'"
proof -
  from renameImageFolder_images [OF assms(2)] consider
    "images m' = images m"
    | old fs m2 w2 r3 m3 w3 where "images m2 = images m"
        "move_files h old fs m2 w2 = (r3, m3, w3)" "images m' = images m3"
    by blast
  then show ?thesis
  proof cases
    case 1
    with assms(1) show ?thesis by (simp add: uploaded_have_remote_def)
  next
    case 2
    from 2(1) assms(1) have "uploaded_have_remote m2" by (simp add: uploaded_have_remote_def)
    from move_files_inv [OF this 2(2)] 2(3) show ?thesis by (simp add: uploaded_have_remote_def)
  qed
qed

lemma perform_inv:
  assumes "gives_address h" "uploaded_have_remote (fst s)"
  shows "uploaded_have_remote (fst (perform h op s))"
proof -
  obtain m w where s: "s = (m, w)" by (cases s)
  show ?thesis
  proof (cases op)
    case (AddImage src)
    obtain t m' w' where "addImage h m w src = (t, m', w')" by (cases "addImage h m w src") auto
    with addImage_inv [OF assms(1) _ this] assms(2) s AddImage show ?thesis by simp
  next
    case UploadAllImages
    obtain t m' w' where u: "uploadAll_loop h (map fst (images m)) True m w = (t, m', w')"
      by (cases "uploadAll_loop h (map fst (images m)) True m w") auto
    with uploadAll_loop_inv [OF assms(1) _ u] assms(2) s UploadAllImages show ?thesis
      by (simp add: uploadAllImages_def)
  next
    case DownloadAllImages
    obtain t m' w' where "downloadAllImages h m w = (t, m', w')"
      by (cases "downloadAllImages h m w") auto
    with downloadAllImages_inv [OF _ this] assms(2) s DownloadAllImages show ?thesis by simp
  next
    case (RemoveImage lp)
    obtain t m' w' where "removeImage h m w lp = (t, m', w')"
      by (cases "removeImage h m w lp") auto
    with removeImage_inv [OF _ this] assms(2) s RemoveImage show ?thesis by simp
  next
    case (RenameImageFolder p)
    obtain t m' w' where "renameImageFolder h m w p = (t, m', w')"
      by (cases "renameImageFolder h m w p") auto
    with renameImageFolder_inv [OF _ this] assms(2) s RenameImageFolder show ?thesis by simp
  qed
qed

lemma perform_all_inv:
  "gives_address h \<Longrightarrow> uploaded_have_remote (fst s)
   \<Longrightarrow> uploaded_have_remote (fst (perform_all h ops s))"
  unfolding perform_all_def
  by (induction ops arbitrary: s) (simp_all add: perform_inv)

lemma starts_with_h_iff: "starts_with_h u = (\<exists>t. u = CHR ''h'' # t)"
  by (cases u) (auto simp: starts_with_h_def startsWith_def)

lemma match_scheme_h: "match_scheme s = Some scheme \<Longrightarrow> \<exists>t. scheme = CHR ''h'' # t"
  by (auto simp: match_scheme_def split: if_splits)

lemma match_line_h:
  assumes "match_line line = Some (index, url)"
  shows "starts_with_h url"
proof -
  from assms obtain s scheme d ds where
    "match_scheme s = Some scheme" "url = scheme @ d # ds"
    by (auto simp: match_line_def Let_def split: list.splits if_splits option.splits)
  with match_scheme_h [of s scheme] show ?thesis by (auto simp: starts_with_h_iff)
qed

lemma dropWhile_snoc: "\<not> P x \<Longrightarrow> \<exists>ys. dropWhile P (xs @ [x]) = ys @ [x]"
  by (induction xs) auto

lemma trim_h:
  assumes "starts_with_h u"
  shows "starts_with_h (trim u)"
proof -
  from assms obtain t where u: "u = CHR ''h'' # t" by (auto simp: starts_with_h_iff)
  have n: "\<not> is_space CHR ''h''" by (simp add: is_space_def)
  from dropWhile_snoc [of is_space "CHR ''h''" "rev t"] n obtain ys where
    "dropWhile is_space (rev t @ ''h'') = ys @ ''h''" by auto
  with n u show ?thesis by (simp add: trim_def starts_with_h_iff)
qed

lemma url_map_set_h:
  "list_all (\<lambda>e. starts_with_h (snd e)) es \<Longrightarrow> starts_with_h v
   \<Longrightarrow> list_all (\<lambda>e. starts_with_h (snd e)) (url_map_set k v es)"
  by (induction es) auto

lemma urlMap_h:
  "list_all (\<lambda>e. starts_with_h (snd e)) acc \<Longrightarrow>
   list_all (\<lambda>e. starts_with_h (snd e))
     (fold (\<lambda>line urlMap.
              case match_line line of
                None \<Rightarrow> urlMap
              | Some (index, url) \<Rightarrow> url_map_set (parseInt index) (trim url) urlMap)
        lines acc)"
proof (induction lines arbitrary: acc)
  case Nil
  then show ?case by simp
next
  case (Cons l ls)
  show ?case
  proof (cases "match_line l")
    case None
    with Cons show ?thesis by simp
  next
    case (Some p)
    obtain index url where p: "p = (index, url)" by (cases p)
    from Some p have "starts_with_h (trim url)" by (intro trim_h match_line_h) simp
    with Cons.prems have "list_all (\<lambda>e. starts_with_h (snd e))
        (url_map_set (parseInt index) (trim url) acc)"
      by (rule url_map_set_h)
    from Cons.IH [OF this] Some p show ?thesis by simp
  qed
qed

lemma parseURL_h:
  assumes "parseURL parseInt result n = Some urls"
  shows "urls \<noteq> [] \<and> list_all starts_with_h urls"
proof -
  from assms obtain rest where "after_first ''Successfully uploaded:'' result = Some rest"
    by (auto simp: parseURL_def split: option.splits)
  define urlMap where "urlMap = fold (\<lambda>line urlMap.
              case match_line line of
                None \<Rightarrow> urlMap
              | Some (index, url) \<Rightarrow> url_map_set (parseInt index) (trim url) urlMap)
        (split_on CHR 0x0A (before_first ''Successfully uploaded:'' rest)) []"
  have "list_all (\<lambda>e. starts_with_h (snd e)) urlMap"
    unfolding urlMap_def by (rule urlMap_h) simp
  then have "list_all starts_with_h (map snd (sort_key fst urlMap))"
    by (simp add: list_all_iff)
  moreover from assms \<open>after_first ''Successfully uploaded:'' result = Some rest\<close>
  have "urls = map snd (sort_key fst urlMap) \<and> urls \<noteq> []"
    by (auto simp: parseURL_def Let_def urlMap_def split: if_splits)
  ultimately show ?thesis by blast
qed

lemma join_with_h:
  assumes "urls \<noteq> []" "list_all starts_with_h urls"
  shows "starts_with_h (join_with sep urls)"
proof -
  from assms obtain t us where "urls = (CHR ''h'' # t) # us"
    by (cases urls) (auto simp: starts_with_h_iff)
  then show ?thesis by (cases us) (simp_all add: starts_with_h_iff)
qed

lemma split_on_h:
  assumes "starts_with_h r"
  shows "hd (split_on CHR '','' r) \<noteq> []"
proof -
  from assms obtain t where "r = CHR ''h'' # t" by (auto simp: starts_with_h_iff)
  then show ?thesis by (simp add: split_on_def split: list.splits)
qed

lemma CustomUploader_gives_address:
  assumes "uploader_upload h = CustomUploader_upload parseInt command exec"
  shows "gives_address h"
  unfolding gives_address_def
proof (intro allI impI)
  fix w p r w'
  assume "uploader_upload h w p = (Some r, w')"
  with assms have "CustomUploader_upload parseInt command exec w p = (Some r, w')" by simp
  then obtain out n urls where "parseURL parseInt out n = Some urls" "r = join_with '','' urls"
    by (auto simp: CustomUploader_upload_def Let_def split: if_splits prod.splits option.splits)
  with parseURL_h [of parseInt out n urls] have "starts_with_h r"
    by (simp add: join_with_h)
  then show "hd (split_on CHR '','' r) \<noteq> []" by (rule split_on_h)
qed

text \<open>
  C1. The manager is handed the uploader the factory of the plugin makes, the custom
  uploader, whatever the command is and whatever it prints. Start from a manager without
  images and perform any sequence of \<^verbatim>\<open>addImage\<close>, \<^verbatim>\<open>uploadAllImages\<close>, \<^verbatim>\<open>downloadAllImages\<close>,
  \<^verbatim>\<open>removeImage\<close> and \<^verbatim>\<open>renameImageFolder\<close>, each on the manager and the vault as the call
  before left them, whatever way that call ended. Then every record of the map that is
  marked uploaded has a remote path that is not empty.
\<close>

theorem uploaded_records_have_remote_path:
  assumes "uploader_upload h = CustomUploader_upload parseInt command exec"
    and "images m = []"
    and "(k, info) \<in> set (images (fst (perform_all h ops (m, w))))"
    and "isUploaded info"
  shows "remotePath info \<noteq> []"
proof -
  from assms(2) have "uploaded_have_remote (fst (m, w))" by (simp add: uploaded_have_remote_def)
  from perform_all_inv [OF CustomUploader_gives_address [OF assms(1)] this, of ops] assms(3)
  have "remote_when_uploaded info"
    by (auto simp: uploaded_have_remote_def list_all_iff)
  with assms(4) show ?thesis by (simp add: remote_when_uploaded_def)
qed

text \<open>
  The invariant is the uploader's doing. \<^verbatim>\<open>uploadImage\<close> takes the first piece of the answer
  as the remote path and marks the record, and its test that there is a piece never fails;
  the custom uploader only answers with addresses that begin with \<^verbatim>\<open>http://\<close> or
  \<^verbatim>\<open>https://\<close>. A collaborator that answered with the empty string would leave a record
  marked uploaded without a remote path.
\<close>

lemma uploadImage_takes_any_address:
  "map (\<lambda>e. (fst e, isUploaded (snd e), remotePath (snd e)))
     (images (fst (perform_all vault_host [AddImage ''tmp/img.png'', UploadAllImages]
                     (twice_manager, empty_address_vault))))
   = [(''notes/_assets.b/img.png'', True, [])]"
  by code_simp

theorem uploaded_records_have_remote_path_witness:
  "uploader_upload custom_host = CustomUploader_upload digits_value ''python uploader.py -f'' v_exec
   \<and> images twice_manager = []
   \<and> map fst (images (fst (perform_all custom_host
         [AddImage ''tmp/img.png'', UploadAllImages, AddImage ''clip/img.png'']
         (twice_manager, twice_vault))))
       = [''notes/_assets.b/img.png'', ''notes/_assets.b/img_1700000000000.png'']
   \<and> isUploaded (snd (hd (images (fst (perform_all custom_host
         [AddImage ''tmp/img.png'', UploadAllImages, AddImage ''clip/img.png'']
         (twice_manager, twice_vault))))))
   \<and> remotePath (snd (hd (images (fst (perform_all custom_host
         [AddImage ''tmp/img.png'', UploadAllImages, AddImage ''clip/img.png'']
         (twice_manager, twice_vault)))))) \<noteq> []"
proof -
  let ?M = "fst (perform_all custom_host
         [AddImage ''tmp/img.png'', UploadAllImages, AddImage ''clip/img.png'']
         (twice_manager, twice_vault))"
  have u: "uploader_upload custom_host
           = CustomUploader_upload digits_value ''python uploader.py -f'' v_exec"
    by (simp add: custom_host_def)
  have e: "images twice_manager = []" by code_simp
  have k: "map fst (images ?M)
           = [''notes/_assets.b/img.png'', ''notes/_assets.b/img_1700000000000.png'']"
    by code_simp
  have i: "isUploaded (snd (hd (images ?M)))" by code_simp
  from k have "images ?M \<noteq> []" by auto
  then have "(fst (hd (images ?M)), snd (hd (images ?M))) \<in> set (images ?M)" by simp
  from uploaded_records_have_remote_path [OF u e this i] u e k i show ?thesis by simp
qed

end
